theory Spec2Isabelle
  imports Main
begin

section \<open>The webcam stream hook: data model\<close>

text \<open>
  A shallow embedding of \<^verbatim>\<open>frontend/src/hooks/useWebcamStream.ts\<close>. The hook keeps
  React state (\<^verbatim>\<open>hasPermission\<close>, \<^verbatim>\<open>error\<close>, \<^verbatim>\<open>errorType\<close>, \<^verbatim>\<open>debugInfo\<close>,
  \<^verbatim>\<open>needsUserGesture\<close>, \<^verbatim>\<open>isRetrying\<close>) and refs (\<^verbatim>\<open>videoElementRef\<close>,
  \<^verbatim>\<open>streamRef\<close>, \<^verbatim>\<open>startInFlightRef\<close>, \<^verbatim>\<open>mountedRef\<close>,
  \<^verbatim>\<open>autoStartAttemptedRef\<close>). JavaScript runs one synchronous segment at a time, so
  every segment between two \<^verbatim>\<open>await\<close>s is one atomic step of the model.
\<close>

datatype WebcamErrorType =
  permission_denied | device_not_found | element_not_mounted
  | overconstrained | stream_ended | unknown

text \<open>
  A value caught by \<^verbatim>\<open>catch (e: unknown)\<close>: what \<^verbatim>\<open>e?.name\<close> and \<^verbatim>\<open>e?.message\<close> read
  (\<open>None\<close> for \<^verbatim>\<open>undefined\<close>) and what \<^verbatim>\<open>String(e)\<close> yields.
\<close>

record failure =
  fname :: "string option"
  fmessage :: "string option"
  fstring :: string

text \<open>JavaScript's \<^verbatim>\<open>v || d\<close> on a string that may be undefined: the empty string is falsy.\<close>

definition or_else :: "string option \<Rightarrow> string \<Rightarrow> string" where
  "or_else v d = (case v of None \<Rightarrow> d | Some x \<Rightarrow> if x = [] then d else x)"

record classified =
  ctype :: WebcamErrorType
  cmessage :: string

definition categorizeError :: "failure \<Rightarrow> classified" where
  "categorizeError err =
    (let name = or_else (fname err) [];
         message = or_else (fmessage err) (fstring err)
     in if name = ''NotAllowedError'' \<or> name = ''PermissionDeniedError'' then
          \<lparr>ctype = permission_denied,
           cmessage = ''Camera access was denied. Please allow camera permissions in your browser settings and refresh.''\<rparr>
        else if name = ''NotFoundError'' \<or> name = ''DevicesNotFoundError'' then
          \<lparr>ctype = device_not_found,
           cmessage = ''No camera found. Please connect a camera and try again.''\<rparr>
        else if name = ''OverconstrainedError'' \<or> name = ''ConstraintNotSatisfiedError'' then
          \<lparr>ctype = overconstrained,
           cmessage = ''Camera does not support the requested settings. Trying with default settings...''\<rparr>
        else
          \<lparr>ctype = unknown,
           cmessage = (if message = [] then ''An unknown error occurred while accessing the camera.''
                       else message)\<rparr>)"

section \<open>Streams, tracks and display surfaces\<close>

text \<open>
  A \<^verbatim>\<open>MediaStream\<close> is an object the platform hands out by reference. The model keeps
  every stream the platform has ever returned in a store, \<open>streams\<close>; a stream is named by
  its index, and \<^verbatim>\<open>streamRef.current\<close> and \<^verbatim>\<open>srcObject\<close> hold such an index. A track
  records its \<^verbatim>\<open>kind\<close>, whether its \<^verbatim>\<open>readyState\<close> is \<^verbatim>\<open>"ended"\<close>, whether the hook
  has installed its \<^verbatim>\<open>onended\<close> handler, and how often \<^verbatim>\<open>track.stop()\<close> was called on
  it.
\<close>

datatype track_kind = Video | Audio

definition kind_name :: "track_kind \<Rightarrow> string" where
  "kind_name k = (case k of Video \<Rightarrow> ''video'' | Audio \<Rightarrow> ''audio'')"

record track =
  tkind :: track_kind
  ended :: bool
  onended :: bool
  stop_calls :: nat

definition new_track :: "track_kind \<Rightarrow> track" where
  "new_track k = \<lparr>tkind = k, ended = False, onended = False, stop_calls = 0\<rparr>"

text \<open>\<^verbatim>\<open>track.stop()\<close>.\<close>

definition stop_track :: "track \<Rightarrow> track" where
  "stop_track t = t\<lparr>ended := True, stop_calls := Suc (stop_calls t)\<rparr>"

text \<open>\<^verbatim>\<open>track.onended = ...\<close> is installed on video tracks only (\<^verbatim>\<open>getVideoTracks()\<close>).\<close>

definition watch_track :: "track \<Rightarrow> track" where
  "watch_track t = (if tkind t = Video then t\<lparr>onended := True\<rparr> else t)"

text \<open>
  A video element of the host page: its \<^verbatim>\<open>srcObject\<close>, its \<^verbatim>\<open>readyState\<close> (0 to 4) and
  whether the hook has installed its event handlers on it. The elements belong to the
  host, so they are a total family indexed by a name.
\<close>

record surface =
  srcObject :: "nat option"
  readyState :: nat
  hooked :: bool

record device =
  deviceId :: string
  dkind :: string

text \<open>The constraints of one \<^verbatim>\<open>getUserMedia\<close> call, by the label \<^verbatim>\<open>requestStream\<close> gets.\<close>

datatype request = WithConstraints | Minimal | SpecificDevice string

text \<open>
  Where a \<^verbatim>\<open>start()\<close> that passed its guards is suspended: at the first, second or third
  \<^verbatim>\<open>getUserMedia\<close>, or at \<^verbatim>\<open>enumerateDevices\<close> (holding \<^verbatim>\<open>e2\<close>, which it may rethrow).
\<close>

datatype pc = Idle | Await1 | Await2 | AwaitEnum failure | Await3

record state =
  videoElementRef :: "nat option"
  streamRef :: "nat option"
  hasPermission :: "bool option"
  error :: "string option"
  errorType :: "WebcamErrorType option"
  debugInfo :: "string option"
  needsUserGesture :: bool
  isRetrying :: bool
  startInFlightRef :: bool
  mountedRef :: bool
  autoStartAttemptedRef :: bool
  autoStart :: bool
  streams :: "track list list"
  surfaces :: "nat \<Rightarrow> surface"
  requests :: "request list"
  start_pc :: pc
  retry_timers :: nat
  retry_awaiting :: bool
  raf_pending :: nat
  plays_pending :: nat

text \<open>
  The React state fields hold the last value passed to their setter. \<open>requests\<close> logs
  the \<^verbatim>\<open>getUserMedia\<close> calls in order. \<open>retry_timers\<close> counts the \<^verbatim>\<open>retry()\<close> calls
  waiting for their 100 ms timeout, \<open>retry_awaiting\<close> says that a \<^verbatim>\<open>retry()\<close> is
  suspended at \<^verbatim>\<open>await start()\<close> on the \<^verbatim>\<open>start()\<close> in flight, \<open>raf_pending\<close> counts the
  scheduled \<^verbatim>\<open>requestAnimationFrame\<close> callbacks and \<open>plays_pending\<close> the unsettled
  \<^verbatim>\<open>play()\<close> promises.
\<close>

definition init :: "bool \<Rightarrow> state" where
  "init auto =
    \<lparr>videoElementRef = None, streamRef = None, hasPermission = None, error = None,
     errorType = None, debugInfo = None, needsUserGesture = False, isRetrying = False,
     startInFlightRef = False, mountedRef = True, autoStartAttemptedRef = False,
     autoStart = auto, streams = [],
     surfaces = (\<lambda>_. \<lparr>srcObject = None, readyState = 0, hooked = False\<rparr>),
     requests = [], start_pc = Idle, retry_timers = 0, retry_awaiting = False,
     raf_pending = 0, plays_pending = 0\<rparr>"

text \<open>Decimal rendering of a number inside a template string.\<close>

fun show_nat :: "nat \<Rightarrow> string" where
  "show_nat n =
    (if n < 10 then [''0123456789'' ! n]
     else show_nat (n div 10) @ [''0123456789'' ! (n mod 10)])"

declare show_nat.simps [simp del]

section \<open>The operations of the hook\<close>

text \<open>
  \<^verbatim>\<open>stream.getTracks().forEach((t) => t.stop())\<close> on the stream named \<open>sid\<close>. A name
  held by the hook always denotes a stream of the store.
\<close>

definition stop_all_tracks :: "nat \<Rightarrow> state \<Rightarrow> state" where
  "stop_all_tracks sid s = s\<lparr>streams := (streams s)[sid := map stop_track (streams s ! sid)]\<rparr>"

definition clear_srcObject :: "state \<Rightarrow> state" where
  "clear_srcObject s =
    (case videoElementRef s of
       None \<Rightarrow> s
     | Some j \<Rightarrow> s\<lparr>surfaces := (surfaces s)(j := (surfaces s j)\<lparr>srcObject := None\<rparr>)\<rparr>)"

text \<open>\<^verbatim>\<open>stop\<close>: the loop stops each track and sets the diagnostic to that track's kind.\<close>

definition stop :: "state \<Rightarrow> state" where
  "stop s =
    clear_srcObject
      (case streamRef s of
         None \<Rightarrow> s
       | Some sid \<Rightarrow>
           (stop_all_tracks sid s)
             \<lparr>debugInfo := foldl (\<lambda>d t. Some (''Stopped track: '' @ kind_name (tkind t)))
                             (debugInfo s) (streams s ! sid),
              streamRef := None\<rparr>)"

text \<open>
  \<^verbatim>\<open>attemptPlay\<close> of the element \<open>j\<close>: below \<^verbatim>\<open>readyState\<close> 2 it only reports that it
  waits; otherwise it calls \<^verbatim>\<open>play()\<close>, which returns a promise that settles later.
\<close>

definition attemptPlay :: "nat \<Rightarrow> state \<Rightarrow> state" where
  "attemptPlay j s =
    (if readyState (surfaces s j) < 2
     then s\<lparr>debugInfo := Some (''Waiting for video metadata... readyState: ''
                                 @ show_nat (readyState (surfaces s j)))\<rparr>
     else s\<lparr>plays_pending := Suc (plays_pending s)\<rparr>)"

text \<open>
  \<^verbatim>\<open>attachStreamToVideo\<close>: with no element it reports the error and stops the stream it
  was given; otherwise it makes the stream the element's source and the held stream
  (whatever was held before), installs the element's handlers, tries to play and watches
  the video tracks.
\<close>

definition attachStreamToVideo :: "nat \<Rightarrow> state \<Rightarrow> bool \<times> state" where
  "attachStreamToVideo sid s =
    (case videoElementRef s of
       None \<Rightarrow>
         (False,
          stop_all_tracks sid
            (s\<lparr>error := Some ''Video element not mounted. Please wait and retry.'',
               errorType := Some element_not_mounted,
               debugInfo := Some ''Video element missing when trying to attach stream.'',
               hasPermission := Some False\<rparr>))
     | Some j \<Rightarrow>
         (let s1 = s\<lparr>debugInfo := Some (''Attaching stream. Video readyState: ''
                                          @ show_nat (readyState (surfaces s j)))\<rparr>;
              s2 = s1\<lparr>surfaces := (surfaces s1)(j := (surfaces s1 j)\<lparr>srcObject := Some sid\<rparr>),
                      streamRef := Some sid\<rparr>;
              s3 = s2\<lparr>surfaces := (surfaces s2)(j := (surfaces s2 j)\<lparr>hooked := True\<rparr>)\<rparr>;
              s4 = attemptPlay j s3;
              s5 = s4\<lparr>streams := (streams s4)[sid := map watch_track (streams s4 ! sid)]\<rparr>
          in (True, s5)))"

text \<open>The \<^verbatim>\<open>onended\<close> handler of a watched track.\<close>

definition track_onended :: "state \<Rightarrow> state" where
  "track_onended s =
    (if \<not> mountedRef s then s
     else s\<lparr>error := Some ''Camera stream ended unexpectedly. Another app may be using the camera.'',
            errorType := Some stream_ended,
            debugInfo := Some ''Video track ended.'',
            hasPermission := Some False\<rparr>)"

definition requestStream :: "request \<Rightarrow> string \<Rightarrow> state \<Rightarrow> state" where
  "requestStream c label s =
    s\<lparr>debugInfo := Some (''Requesting camera access ('' @ label @ '')...''),
      requests := requests s @ [c]\<rparr>"

text \<open>
  \<^verbatim>\<open>start()\<close> up to its first \<^verbatim>\<open>await\<close>: the two guards, then the first acquisition
  attempt. The boolean says whether the call is now suspended (in flight) rather than
  returned.
\<close>

definition start_sync :: "state \<Rightarrow> bool \<times> state" where
  "start_sync s =
    (if startInFlightRef s then
       (False, s\<lparr>debugInfo := Some ''Start already in progress, skipping...''\<rparr>)
     else if videoElementRef s = None then
       (False,
        s\<lparr>error := Some ''Video element not ready. Please wait a moment and try again.'',
          errorType := Some element_not_mounted,
          debugInfo := Some ''Cannot start: video element not mounted yet.''\<rparr>)
     else
       (True,
        requestStream WithConstraints ''with constraints''
          (s\<lparr>startInFlightRef := True, needsUserGesture := False, error := None,
             errorType := None, start_pc := Await1\<rparr>)))"

text \<open>The outer \<^verbatim>\<open>catch\<close> of \<^verbatim>\<open>start()\<close>.\<close>

definition catch_outer :: "failure \<Rightarrow> state \<Rightarrow> state" where
  "catch_outer err s =
    (if \<not> mountedRef s then s
     else (let c = categorizeError err
           in s\<lparr>hasPermission := Some False, error := Some (cmessage c),
                errorType := Some (ctype c),
                debugInfo := Some (''Failed: '' @ or_else (fname err) ''Unknown'' @ '' - ''
                                   @ or_else (fmessage err) (fstring err))\<rparr>))"

text \<open>
  The \<^verbatim>\<open>finally\<close> of \<^verbatim>\<open>start()\<close>, after which its promise resolves; a \<^verbatim>\<open>retry()\<close>
  suspended on it resumes and clears \<^verbatim>\<open>isRetrying\<close>.
\<close>

definition settle :: "state \<Rightarrow> state" where
  "settle s =
    s\<lparr>startInFlightRef := False, start_pc := Idle,
      isRetrying := (if retry_awaiting s then False else isRetrying s),
      retry_awaiting := False\<rparr>"

text \<open>
  \<^verbatim>\<open>start()\<close> from the point where \<^verbatim>\<open>getUserMedia\<close> has resolved with a new stream of
  the given tracks, up to the end of the \<^verbatim>\<open>try\<close> block. The platform puts the new
  stream in the store, all its tracks live. (A resolved \<^verbatim>\<open>getUserMedia\<close> always yields a
  stream, so the \<^verbatim>\<open>if (!stream) throw\<close> of the source has no branch here.)
\<close>

definition acquired :: "track_kind list \<Rightarrow> state \<Rightarrow> state" where
  "acquired kinds s =
    (let sid = length (streams s);
         s1 = s\<lparr>streams := streams s @ [map new_track kinds]\<rparr>
     in if \<not> mountedRef s1 then
          (stop_all_tracks sid s1)\<lparr>debugInfo := Some ''Component unmounted, stopped stream.''\<rparr>
        else
          snd (attachStreamToVideo sid
                 (s1\<lparr>hasPermission := Some True,
                     debugInfo := Some ''Stream acquired successfully.''\<rparr>)))"

text \<open>\<^verbatim>\<open>retry()\<close> up to its \<^verbatim>\<open>await\<close> of the 100 ms timeout.\<close>

definition retry_sync :: "state \<Rightarrow> state" where
  "retry_sync s =
    (let s1 = stop (s\<lparr>isRetrying := True, error := None, errorType := None,
                      debugInfo := Some ''Retrying camera access...''\<rparr>)
     in s1\<lparr>retry_timers := Suc (retry_timers s1)\<rparr>)"

text \<open>
  \<^verbatim>\<open>retry()\<close> resumed by its timeout: it calls \<^verbatim>\<open>start()\<close>; when that call returns at a
  guard its promise is already resolved and \<^verbatim>\<open>setIsRetrying(false)\<close> follows at once.
\<close>

definition retry_resume :: "state \<Rightarrow> state" where
  "retry_resume s =
    (case start_sync (s\<lparr>retry_timers := retry_timers s - 1\<rparr>) of
       (True, s') \<Rightarrow> s'\<lparr>retry_awaiting := True\<rparr>
     | (False, s') \<Rightarrow> s'\<lparr>isRetrying := False\<rparr>)"

text \<open>
  \<^verbatim>\<open>videoCallbackRef\<close>: the first element bound schedules the one automatic
  \<^verbatim>\<open>start()\<close> for the next animation frame.
\<close>

definition videoCallbackRef :: "nat option \<Rightarrow> state \<Rightarrow> state" where
  "videoCallbackRef node s =
    (let previousNode = videoElementRef s;
         s1 = s\<lparr>videoElementRef := node\<rparr>
     in if node \<noteq> None \<and> previousNode = None then
          (let s2 = s1\<lparr>debugInfo := Some ''Video element mounted.''\<rparr>
           in if autoStart s2 \<and> \<not> autoStartAttemptedRef s2 \<and> \<not> startInFlightRef s2
              then s2\<lparr>autoStartAttemptedRef := True, raf_pending := Suc (raf_pending s2)\<rparr>
              else s2)
        else if node = None \<and> previousNode \<noteq> None then
          s1\<lparr>debugInfo := Some ''Video element unmounted.''\<rparr>
        else s1)"

text \<open>The callback given to \<^verbatim>\<open>requestAnimationFrame\<close>.\<close>

definition raf_callback :: "state \<Rightarrow> state" where
  "raf_callback s =
    (if mountedRef s \<and> videoElementRef s \<noteq> None then snd (start_sync s) else s)"

text \<open>The cleanup returned by the effect, run when the component unmounts.\<close>

definition cleanup :: "state \<Rightarrow> state" where
  "cleanup s =
    (let s1 = s\<lparr>mountedRef := False\<rparr>
     in clear_srcObject
          (case streamRef s1 of
             None \<Rightarrow> s1
           | Some sid \<Rightarrow> (stop_all_tracks sid s1)\<lparr>streamRef := None\<rparr>))"

text \<open>Settlement of a \<^verbatim>\<open>play()\<close> promise.\<close>

definition play_rejected :: "failure \<Rightarrow> state \<Rightarrow> state" where
  "play_rejected e s =
    (let name = (case fname e of None \<Rightarrow> ''undefined'' | Some n \<Rightarrow> n);
         message = (case fmessage e of None \<Rightarrow> ''undefined'' | Some m \<Rightarrow> m)
     in if name = ''AbortError'' then
          s\<lparr>debugInfo := Some ''Play interrupted, will retry on user gesture.''\<rparr>
        else if name = ''NotAllowedError'' then
          s\<lparr>needsUserGesture := True,
            debugInfo := Some ''Autoplay blocked. Click 'Start Camera' to continue.''\<rparr>
        else s\<lparr>debugInfo := Some (''Play failed: '' @ name @ '' - '' @ message)\<rparr>)"

section \<open>Events\<close>

text \<open>
  What can happen to a mounted hook: the host calls an operation, binds or withdraws the
  video element, or unmounts the component; the platform settles the pending promise of
  the \<^verbatim>\<open>start()\<close> in flight, fires a timer or an animation frame, ends a track, or fires
  an event of a video element. An event that cannot occur in a state (a settlement with
  nothing pending, the end of a track that has ended) leaves the state as it is.
\<close>

datatype video_event = Playing | Pause | VideoError

datatype event =
    Start
  | Stop
  | Retry
  | Timer
  | GumOk "track_kind list"
  | GumErr failure
  | EnumOk "device list"
  | EnumErr failure
  | TrackEnded nat nat
  | Bind "nat option"
  | Raf
  | Dispose
  | SetReadyState nat nat
  | LoadedMetadata nat
  | PlayOk
  | PlayErr failure
  | VideoEvent nat video_event

fun step :: "event \<Rightarrow> state \<Rightarrow> state" where
  "step Start s = snd (start_sync s)"
| "step Stop s = stop s"
| "step Retry s = retry_sync s"
| "step Timer s = (if retry_timers s = 0 then s else retry_resume s)"
| "step (GumOk kinds) s =
    (case start_pc s of
       Idle \<Rightarrow> s
     | AwaitEnum e2 \<Rightarrow> s
     | _ \<Rightarrow> settle (acquired kinds s))"
| "step (GumErr e) s =
    (case start_pc s of
       Await1 \<Rightarrow>
         (let t = ctype (categorizeError e)
          in if t = overconstrained \<or> t = device_not_found then
               requestStream Minimal ''minimal''
                 (s\<lparr>debugInfo := Some ''Retrying with minimal constraints...'',
                    start_pc := Await2\<rparr>)
             else settle (catch_outer e s))
     | Await2 \<Rightarrow>
         (if ctype (categorizeError e) = device_not_found then
            s\<lparr>debugInfo := Some ''Enumerating available cameras...'', start_pc := AwaitEnum e\<rparr>
          else settle (catch_outer e s))
     | Await3 \<Rightarrow> settle (catch_outer e s)
     | _ \<Rightarrow> s)"
| "step (EnumOk devices) s =
    (case start_pc s of
       AwaitEnum e2 \<Rightarrow>
         (case filter (\<lambda>d. dkind d = ''videoinput'') devices of
            [] \<Rightarrow> settle (catch_outer e2 s)
          | c # cs \<Rightarrow>
              requestStream (SpecificDevice (deviceId c)) ''specific device''
                (s\<lparr>debugInfo := Some (''Found '' @ show_nat (length (c # cs))
                                      @ '' camera(s). Trying first one...''),
                   start_pc := Await3\<rparr>))
     | _ \<Rightarrow> s)"
| "step (EnumErr e) s =
    (case start_pc s of
       AwaitEnum e2 \<Rightarrow> settle (catch_outer e s)
     | _ \<Rightarrow> s)"
| "step (TrackEnded sid k) s =
    (if sid < length (streams s) \<and> k < length (streams s ! sid)
        \<and> \<not> ended (streams s ! sid ! k)
     then (let t = streams s ! sid ! k;
               s1 = s\<lparr>streams := (streams s)[sid := (streams s ! sid)[k := t\<lparr>ended := True\<rparr>]]\<rparr>
           in if onended t then track_onended s1 else s1)
     else s)"
| "step (Bind node) s = videoCallbackRef node s"
| "step Raf s =
    (if raf_pending s = 0 then s else raf_callback (s\<lparr>raf_pending := raf_pending s - 1\<rparr>))"
| "step Dispose s = cleanup s"
| "step (SetReadyState j r) s =
    s\<lparr>surfaces := (surfaces s)(j := (surfaces s j)\<lparr>readyState := r\<rparr>)\<rparr>"
| "step (LoadedMetadata j) s =
    (if hooked (surfaces s j)
     then attemptPlay j (s\<lparr>debugInfo := Some ''Video metadata loaded. Attempting playback...''\<rparr>)
     else s)"
| "step PlayOk s =
    (if plays_pending s = 0 then s
     else s\<lparr>plays_pending := plays_pending s - 1,
            debugInfo := Some ''Video playing successfully.'', needsUserGesture := False\<rparr>)"
| "step (PlayErr e) s =
    (if plays_pending s = 0 then s
     else play_rejected e (s\<lparr>plays_pending := plays_pending s - 1\<rparr>))"
| "step (VideoEvent j v) s =
    (if hooked (surfaces s j)
     then s\<lparr>debugInfo := Some (case v of Playing \<Rightarrow> ''Video is now playing.''
                                 | Pause \<Rightarrow> ''Video paused.''
                                 | VideoError \<Rightarrow> ''Video element encountered an error.'')\<rparr>
     else s)"

text \<open>A run: the events of a list, one after the other.\<close>

fun run :: "event list \<Rightarrow> state \<Rightarrow> state" where
  "run [] s = s"
| "run (e # es) s = run es (step e s)"

section \<open>Properties of states and runs\<close>

text \<open>
  The suspended \<^verbatim>\<open>start()\<close> and the in-flight flag agree, and a \<^verbatim>\<open>retry()\<close> only
  waits for a \<^verbatim>\<open>start()\<close> that is in flight.
\<close>

definition flag_pc :: "state \<Rightarrow> bool" where
  "flag_pc s \<longleftrightarrow>
     (startInFlightRef s \<longleftrightarrow> start_pc s \<noteq> Idle) \<and> (retry_awaiting s \<longrightarrow> startInFlightRef s)"

text \<open>
  A held stream is a stream of the store, held only while the component is mounted, with
  the end of each of its video tracks watched; a source of a surface is a stream of the
  store.
\<close>

definition held_ok :: "state \<Rightarrow> bool" where
  "held_ok s \<longleftrightarrow>
     (\<forall>sid. streamRef s = Some sid \<longrightarrow>
        mountedRef s \<and> sid < length (streams s)
        \<and> (\<forall>t \<in> set (streams s ! sid). tkind t = Video \<longrightarrow> onended t))
     \<and> (\<forall>j sid. srcObject (surfaces s j) = Some sid \<longrightarrow> sid < length (streams s))"

text \<open>No stream but the held one has a track that is not ended.\<close>

definition leak_free :: "state \<Rightarrow> bool" where
  "leak_free s \<longleftrightarrow>
     (\<forall>sid < length (streams s).
        (\<exists>t \<in> set (streams s ! sid). \<not> ended t) \<longrightarrow> streamRef s = Some sid)"

definition all_stopped :: "state \<Rightarrow> bool" where
  "all_stopped s \<longleftrightarrow> (\<forall>ts \<in> set (streams s). \<forall>t \<in> set ts. ended t)"

text \<open>
  The event does not replace a held stream by a newly acquired one; a run in which no
  event does.
\<close>

definition no_replace :: "event \<Rightarrow> state \<Rightarrow> bool" where
  "no_replace e s \<longleftrightarrow>
     (case e of
        GumOk kinds \<Rightarrow> streamRef s = None \<or> streamRef (step e s) = streamRef s
      | _ \<Rightarrow> True)"

fun safe_run :: "event list \<Rightarrow> state \<Rightarrow> bool" where
  "safe_run [] s = True"
| "safe_run (e # es) s = (no_replace e s \<and> safe_run es (step e s))"

text \<open>
  The stream \<open>sid\<close> is released: each of its tracks is ended, the hook does not hold it
  and it is the source of no surface.
\<close>

definition released :: "nat \<Rightarrow> state \<Rightarrow> bool" where
  "released sid s \<longleftrightarrow>
     sid < length (streams s) \<and> (\<forall>t \<in> set (streams s ! sid). ended t)
     \<and> streamRef s \<noteq> Some sid \<and> (\<forall>j. srcObject (surfaces s j) \<noteq> Some sid)"

text \<open>
  At most one \<^verbatim>\<open>retry()\<close> call is under way (waiting for its timeout, or for the
  \<^verbatim>\<open>start()\<close> it called), and \<^verbatim>\<open>isRetrying\<close> is true exactly while it is.
\<close>

definition single_retry :: "state \<Rightarrow> bool" where
  "single_retry s \<longleftrightarrow>
     (retry_timers s = Suc 0 \<and> \<not> retry_awaiting s \<and> isRetrying s)
     \<or> (retry_timers s = 0 \<and> retry_awaiting s \<and> isRetrying s \<and> startInFlightRef s)
     \<or> (retry_timers s = 0 \<and> \<not> retry_awaiting s \<and> \<not> isRetrying s)"

text \<open>How many more \<^verbatim>\<open>getUserMedia\<close> calls a suspended \<^verbatim>\<open>start()\<close> can still make.\<close>

fun attempts_left :: "pc \<Rightarrow> nat" where
  "attempts_left Idle = 0"
| "attempts_left Await1 = 2"
| "attempts_left Await2 = 1"
| "attempts_left (AwaitEnum e) = 1"
| "attempts_left Await3 = 0"

text \<open>Every event of the run happens while a \<^verbatim>\<open>start()\<close> is in flight.\<close>

fun in_flight :: "event list \<Rightarrow> state \<Rightarrow> bool" where
  "in_flight [] s = True"
| "in_flight (e # es) s = (startInFlightRef s \<and> in_flight es (step e s))"

subsection \<open>Some failures and runs\<close>

definition NotAllowedError :: failure where
  "NotAllowedError =
    \<lparr>fname = Some ''NotAllowedError'', fmessage = Some ''Permission denied'',
     fstring = ''NotAllowedError: Permission denied''\<rparr>"

definition OverconstrainedError :: failure where
  "OverconstrainedError =
    \<lparr>fname = Some ''OverconstrainedError'', fmessage = Some [],
     fstring = ''OverconstrainedError''\<rparr>"

definition NotFoundError :: failure where
  "NotFoundError =
    \<lparr>fname = Some ''NotFoundError'', fmessage = Some ''Requested device not found'',
     fstring = ''NotFoundError: Requested device not found''\<rparr>"

definition AbortError :: failure where
  "AbortError =
    \<lparr>fname = Some ''AbortError'', fmessage = Some ''Starting videoinput failed'',
     fstring = ''AbortError: Starting videoinput failed''\<rparr>"

definition camera :: device where
  "camera = \<lparr>deviceId = ''cam0'', dkind = ''videoinput''\<rparr>"

text \<open>A mounted hook with a video element bound, without auto-start.\<close>

definition bound :: state where
  "bound = run [Bind (Some 0)] (init False)"

text \<open>The same with a \<^verbatim>\<open>start()\<close> suspended at its first acquisition attempt.\<close>

definition acquiring :: state where
  "acquiring = run [Bind (Some 0), Start] (init False)"

text \<open>Live on a stream of a video and an audio track.\<close>

definition live_av :: state where
  "live_av = run [Bind (Some 0), Start, GumOk [Video, Audio]] (init False)"

text \<open>\<^verbatim>\<open>start()\<close> called again while live, and a second stream acquired.\<close>

definition live_twice :: state where
  "live_twice = run [Start, GumOk [Video]] (run [Bind (Some 0), Start, GumOk [Video]] (init False))"

text \<open>Two \<^verbatim>\<open>retry()\<close> calls that overlap, both timeouts elapsed.\<close>

definition retry_overlap :: state where
  "retry_overlap = run [Bind (Some 0), Retry, Retry, Timer, Timer] (init False)"

text \<open>Live, then the video track ends by itself: the error state \<open>stream_ended\<close>.\<close>

definition stream_lost :: state where
  "stream_lost = run [Bind (Some 0), Start, GumOk [Video, Audio], TrackEnded 0 0] (init False)"

text \<open>Live, then the host withdraws the video element, as it does before an unmount.\<close>

definition withdrawn :: state where
  "withdrawn = run [Bind (Some 0), Start, GumOk [Video], Bind None] (init False)"

text \<open>The component unmounted while \<^verbatim>\<open>start()\<close> awaits its first acquisition.\<close>

definition disposed_acquiring :: state where
  "disposed_acquiring = run [Bind (Some 0), Start, Dispose] (init False)"

section \<open>Theorems\<close>

lemmas op_defs = start_sync_def requestStream_def settle_def catch_outer_def acquired_def
  attachStreamToVideo_def attemptPlay_def stop_all_tracks_def stop_def clear_srcObject_def
  retry_sync_def retry_resume_def videoCallbackRef_def raf_callback_def cleanup_def
  play_rejected_def track_onended_def

subsection \<open>The error classifier\<close>

text \<open>
  C9, as the code has it: \<open>categorizeError\<close> is a total function of the failure's name.
  \<^verbatim>\<open>NotAllowedError\<close> and \<^verbatim>\<open>PermissionDeniedError\<close> give \<open>permission_denied\<close>,
  \<^verbatim>\<open>NotFoundError\<close> and \<^verbatim>\<open>DevicesNotFoundError\<close> give \<open>device_not_found\<close>,
  \<^verbatim>\<open>OverconstrainedError\<close> and \<^verbatim>\<open>ConstraintNotSatisfiedError\<close> give \<open>overconstrained\<close>,
  each with its fixed message. Every other name, a missing or an empty one included, gives
  \<open>unknown\<close>, and the message is then the failure's own message when it has one, else
  \<^verbatim>\<open>String(err)\<close>, and the fixed fallback text only when both are empty.
\<close>

theorem categorizeError_taxonomy:
  fixes e :: failure
  defines "n \<equiv> or_else (fname e) []"
  shows "(n = ''NotAllowedError'' \<or> n = ''PermissionDeniedError'' \<longrightarrow>
           categorizeError e =
             \<lparr>ctype = permission_denied,
              cmessage = ''Camera access was denied. Please allow camera permissions in your browser settings and refresh.''\<rparr>)
       \<and> (n = ''NotFoundError'' \<or> n = ''DevicesNotFoundError'' \<longrightarrow>
           categorizeError e =
             \<lparr>ctype = device_not_found,
              cmessage = ''No camera found. Please connect a camera and try again.''\<rparr>)
       \<and> (n = ''OverconstrainedError'' \<or> n = ''ConstraintNotSatisfiedError'' \<longrightarrow>
           categorizeError e =
             \<lparr>ctype = overconstrained,
              cmessage = ''Camera does not support the requested settings. Trying with default settings...''\<rparr>)
       \<and> (n \<notin> {''NotAllowedError'', ''PermissionDeniedError'', ''NotFoundError'',
                 ''DevicesNotFoundError'', ''OverconstrainedError'',
                 ''ConstraintNotSatisfiedError''} \<longrightarrow>
           ctype (categorizeError e) = unknown
           \<and> cmessage (categorizeError e) =
               (if or_else (fmessage e) (fstring e) = []
                then ''An unknown error occurred while accessing the camera.''
                else or_else (fmessage e) (fstring e)))"
  unfolding n_def by (simp add: categorizeError_def Let_def)

theorem categorizeError_taxonomy_witness:
  "categorizeError \<lparr>fname = Some ''PermissionDeniedError'', fmessage = Some ''no'', fstring = ''x''\<rparr> =
     \<lparr>ctype = permission_denied,
      cmessage = ''Camera access was denied. Please allow camera permissions in your browser settings and refresh.''\<rparr>
   \<and> categorizeError \<lparr>fname = Some ''NotFoundError'', fmessage = None, fstring = ''x''\<rparr> =
     \<lparr>ctype = device_not_found,
      cmessage = ''No camera found. Please connect a camera and try again.''\<rparr>
   \<and> categorizeError \<lparr>fname = Some ''OverconstrainedError'', fmessage = None, fstring = ''x''\<rparr> =
     \<lparr>ctype = overconstrained,
      cmessage = ''Camera does not support the requested settings. Trying with default settings...''\<rparr>
   \<and> categorizeError \<lparr>fname = None, fmessage = None, fstring = []\<rparr> =
     \<lparr>ctype = unknown, cmessage = ''An unknown error occurred while accessing the camera.''\<rparr>
   \<and> categorizeError \<lparr>fname = Some [], fmessage = Some [], fstring = ''undefined''\<rparr> =
     \<lparr>ctype = unknown, cmessage = ''undefined''\<rparr>"
  using
    categorizeError_taxonomy [of "\<lparr>fname = Some ''PermissionDeniedError'', fmessage = Some ''no'', fstring = ''x''\<rparr>"]
    categorizeError_taxonomy [of "\<lparr>fname = Some ''NotFoundError'', fmessage = None, fstring = ''x''\<rparr>"]
    categorizeError_taxonomy [of "\<lparr>fname = Some ''OverconstrainedError'', fmessage = None, fstring = ''x''\<rparr>"]
    categorizeError_taxonomy [of "\<lparr>fname = None, fmessage = None, fstring = []\<rparr>"]
    categorizeError_taxonomy [of "\<lparr>fname = Some [], fmessage = Some [], fstring = ''undefined''\<rparr>"]
  by (simp add: or_else_def)

text \<open>
  C9 as stated fails where it promises a message that is not the raw one: an unrecognised
  failure is reported with the platform's own message text.
\<close>

theorem categorizeError_raw_message_counterexample:
  "ctype (categorizeError \<lparr>fname = Some ''AbortError'',
                            fmessage = Some ''Starting videoinput failed'',
                            fstring = ''AbortError: Starting videoinput failed''\<rparr>) = unknown
   \<and> Some (cmessage (categorizeError \<lparr>fname = Some ''AbortError'',
                            fmessage = Some ''Starting videoinput failed'',
                            fstring = ''AbortError: Starting videoinput failed''\<rparr>))
     = fmessage \<lparr>fname = Some ''AbortError'',
                 fmessage = Some ''Starting videoinput failed'',
                 fstring = ''AbortError: Starting videoinput failed''\<rparr>"
  by (simp add: categorizeError_def or_else_def)


subsection \<open>\<open>stop()\<close>\<close>

lemma surface_src_triv: "srcObject x = None \<Longrightarrow> x\<lparr>srcObject := None\<rparr> = x"
  by simp

lemma stop_streamRef: "streamRef (stop s) = None"
  by (simp add: stop_def clear_srcObject_def stop_all_tracks_def split: option.splits)

lemma stop_twice: "stop (stop s) = stop s"
  by (simp add: stop_def clear_srcObject_def stop_all_tracks_def split: option.splits)

lemma stop_nothing_held:
  assumes "streamRef s = None"
    and "\<forall>j. videoElementRef s = Some j \<longrightarrow> srcObject (surfaces s j) = None"
  shows "stop s = s"
  using assms
  by (auto simp add: stop_def clear_srcObject_def surface_src_triv split: option.splits)

text \<open>
  C10: \<^verbatim>\<open>stop()\<close> changes nothing but the held stream reference (cleared, the tracks of
  the stream it named stopped), the source of the bound surface (cleared) and the
  diagnostic string. The error message, the error kind, the permission, the
  user-gesture flag and \<^verbatim>\<open>isRetrying\<close> are as before: stopping does not clear a
  reported error.
\<close>

theorem stop_frame:
  "step Stop s = stop s
   \<and> stop s = s\<lparr>streamRef := None, debugInfo := debugInfo (stop s),
                 streams := streams (stop s), surfaces := surfaces (stop s)\<rparr>
   \<and> streams (stop s) =
       (case streamRef s of None \<Rightarrow> streams s
        | Some sid \<Rightarrow> (streams s)[sid := map stop_track (streams s ! sid)])
   \<and> surfaces (stop s) =
       (case videoElementRef s of None \<Rightarrow> surfaces s
        | Some j \<Rightarrow> (surfaces s)(j := (surfaces s j)\<lparr>srcObject := None\<rparr>))
   \<and> error (stop s) = error s
   \<and> errorType (stop s) = errorType s
   \<and> hasPermission (stop s) = hasPermission s
   \<and> needsUserGesture (stop s) = needsUserGesture s
   \<and> isRetrying (stop s) = isRetrying s"
  by (simp add: stop_def clear_srcObject_def stop_all_tracks_def split: option.splits)

text \<open>
  C6: \<^verbatim>\<open>stop()\<close> is idempotent. A second call right after a first leaves the whole
  state as the first left it, the tracks and the number of \<^verbatim>\<open>track.stop()\<close> calls made
  on each of them included, so the second call stops no track again. Called when no stream
  is held and the bound surface has no source, \<^verbatim>\<open>stop()\<close> changes nothing at all.
\<close>

theorem stop_idempotent:
  "step Stop (step Stop s) = step Stop s
   \<and> streams (step Stop (step Stop s)) = streams (step Stop s)
   \<and> map (map stop_calls) (streams (step Stop (step Stop s)))
       = map (map stop_calls) (streams (step Stop s))
   \<and> (streamRef s = None
        \<and> (\<forall>j. videoElementRef s = Some j \<longrightarrow> srcObject (surfaces s j) = None)
      \<longrightarrow> step Stop s = s)"
  by (simp add: stop_twice stop_nothing_held)

theorem stop_idempotent_witness:
  "streamRef (init False) = None \<and> step Stop (init False) = init False
   \<and> step Stop (step Stop live_av) = step Stop live_av
   \<and> map (map stop_calls) (streams (step Stop (step Stop live_av))) = [ [1, 1] ]"
proof -
  have "map (map stop_calls) (streams (step Stop live_av)) = [ [1, 1] ]"
    unfolding live_av_def by code_simp
  then show ?thesis
    using stop_idempotent [of "init False"] stop_idempotent [of live_av]
    by (simp add: init_def)
qed

subsection \<open>No surface bound\<close>

text \<open>
  C7: \<^verbatim>\<open>start()\<close> invoked with no surface bound makes no acquisition attempt and does
  not go in flight, and, unless it returned at the in-flight guard before looking for the
  surface, reports \<open>element_not_mounted\<close>. When an acquisition resolves in a mounted
  component whose surface has gone, the attach step reports \<open>element_not_mounted\<close> and
  has stopped every track of the stream it was given; the stream is neither held nor the
  source of any surface.
\<close>

theorem no_surface_element_not_mounted:
  "(videoElementRef s = None \<longrightarrow>
      requests (step Start s) = requests s \<and> start_pc (step Start s) = start_pc s
      \<and> startInFlightRef (step Start s) = startInFlightRef s
      \<and> streams (step Start s) = streams s)
   \<and> (videoElementRef s = None \<and> \<not> startInFlightRef s \<longrightarrow>
      errorType (step Start s) = Some element_not_mounted
      \<and> error (step Start s) = Some ''Video element not ready. Please wait a moment and try again.'')
   \<and> (videoElementRef s = None \<and> sid < length (streams s) \<longrightarrow>
      \<not> fst (attachStreamToVideo sid s)
      \<and> errorType (snd (attachStreamToVideo sid s)) = Some element_not_mounted
      \<and> error (snd (attachStreamToVideo sid s)) = Some ''Video element not mounted. Please wait and retry.''
      \<and> streams (snd (attachStreamToVideo sid s)) ! sid = map stop_track (streams s ! sid)
      \<and> list_all ended (streams (snd (attachStreamToVideo sid s)) ! sid)
      \<and> streamRef (snd (attachStreamToVideo sid s)) = streamRef s
      \<and> surfaces (snd (attachStreamToVideo sid s)) = surfaces s)
   \<and> (videoElementRef s = None \<and> mountedRef s \<and> start_pc s \<in> {Await1, Await2, Await3} \<longrightarrow>
      errorType (step (GumOk kinds) s) = Some element_not_mounted
      \<and> streams (step (GumOk kinds) s) = streams s @ [map (stop_track \<circ> new_track) kinds]
      \<and> list_all ended (streams (step (GumOk kinds) s) ! length (streams s))
      \<and> streamRef (step (GumOk kinds) s) = streamRef s
      \<and> surfaces (step (GumOk kinds) s) = surfaces s
      \<and> start_pc (step (GumOk kinds) s) = Idle)"
  by (auto simp add: start_sync_def acquired_def settle_def Let_def attachStreamToVideo_def
      stop_all_tracks_def stop_track_def list_all_iff)

theorem no_surface_element_not_mounted_witness:
  "videoElementRef (init False) = None \<and> \<not> startInFlightRef (init False)
   \<and> errorType (step Start (init False)) = Some element_not_mounted
   \<and> requests (step Start (init False)) = []
   \<and> videoElementRef (step (Bind None) acquiring) = None
   \<and> mountedRef (step (Bind None) acquiring)
   \<and> start_pc (step (Bind None) acquiring) = Await1
   \<and> errorType (step (GumOk [Video]) (step (Bind None) acquiring)) = Some element_not_mounted
   \<and> streams (step (GumOk [Video]) (step (Bind None) acquiring))
       = [ [\<lparr>tkind = Video, ended = True, onended = False, stop_calls = 1\<rparr>] ]
   \<and> streamRef (step (GumOk [Video]) (step (Bind None) acquiring)) = None
   \<and> videoElementRef (step (Bind None) live_av) = None
   \<and> errorType (snd (attachStreamToVideo 0 (step (Bind None) live_av))) = Some element_not_mounted"
proof -
  have a: "videoElementRef (step (Bind None) acquiring) = None
      \<and> mountedRef (step (Bind None) acquiring)
      \<and> start_pc (step (Bind None) acquiring) = Await1
      \<and> streams (step (Bind None) acquiring) = []
      \<and> streamRef (step (Bind None) acquiring) = None"
    unfolding acquiring_def by code_simp
  have b: "videoElementRef (step (Bind None) live_av) = None
      \<and> 0 < length (streams (step (Bind None) live_av))"
    unfolding live_av_def by code_simp
  show ?thesis
    using a b no_surface_element_not_mounted [of "init False" 0 "[]"]
      no_surface_element_not_mounted [of "step (Bind None) acquiring" 0 "[Video]"]
      no_surface_element_not_mounted [of "step (Bind None) live_av" 0 "[]"]
    by (simp add: init_def stop_track_def new_track_def)
qed

subsection \<open>Negotiation\<close>

text \<open>
  C4: after a failed acquisition attempt \<^verbatim>\<open>start()\<close> stays in flight, and so can make
  another attempt, only when the failure classifies as \<open>overconstrained\<close> or
  \<open>device_not_found\<close>. A failure of any other class ends the negotiation at once: the
  call settles, no further attempt is logged, and a mounted component reports the class
  of that failure. In particular a first attempt rejected with a permission failure
  leaves exactly that one attempt and the error kind \<open>permission_denied\<close>.
\<close>

theorem negotiation_fallback:
  "(start_pc s \<in> {Await1, Await2, Await3}
      \<and> ctype (categorizeError e) \<noteq> overconstrained
      \<and> ctype (categorizeError e) \<noteq> device_not_found \<longrightarrow>
      start_pc (step (GumErr e) s) = Idle \<and> \<not> startInFlightRef (step (GumErr e) s)
      \<and> requests (step (GumErr e) s) = requests s
      \<and> streams (step (GumErr e) s) = streams s
      \<and> streamRef (step (GumErr e) s) = streamRef s
      \<and> (mountedRef s \<longrightarrow>
            errorType (step (GumErr e) s) = Some (ctype (categorizeError e))
            \<and> error (step (GumErr e) s) = Some (cmessage (categorizeError e))
            \<and> hasPermission (step (GumErr e) s) = Some False))
   \<and> (start_pc s \<in> {Await1, Await2, Await3} \<and> start_pc (step (GumErr e) s) \<noteq> Idle \<longrightarrow>
      ctype (categorizeError e) = overconstrained \<or> ctype (categorizeError e) = device_not_found)
   \<and> (requests (step (GumErr e) s) \<noteq> requests s \<longrightarrow>
      ctype (categorizeError e) = overconstrained \<or> ctype (categorizeError e) = device_not_found)
   \<and> (\<not> startInFlightRef s \<and> videoElementRef s \<noteq> None \<and> mountedRef s
      \<and> (or_else (fname e) [] = ''NotAllowedError''
          \<or> or_else (fname e) [] = ''PermissionDeniedError'') \<longrightarrow>
      requests (run [Start, GumErr e] s) = requests s @ [WithConstraints]
      \<and> errorType (run [Start, GumErr e] s) = Some permission_denied
      \<and> hasPermission (run [Start, GumErr e] s) = Some False
      \<and> start_pc (run [Start, GumErr e] s) = Idle
      \<and> \<not> startInFlightRef (run [Start, GumErr e] s)
      \<and> streams (run [Start, GumErr e] s) = streams s)"
proof (intro conjI)
  show "start_pc s \<in> {Await1, Await2, Await3}
      \<and> ctype (categorizeError e) \<noteq> overconstrained
      \<and> ctype (categorizeError e) \<noteq> device_not_found \<longrightarrow>
      start_pc (step (GumErr e) s) = Idle \<and> \<not> startInFlightRef (step (GumErr e) s)
      \<and> requests (step (GumErr e) s) = requests s
      \<and> streams (step (GumErr e) s) = streams s
      \<and> streamRef (step (GumErr e) s) = streamRef s
      \<and> (mountedRef s \<longrightarrow>
            errorType (step (GumErr e) s) = Some (ctype (categorizeError e))
            \<and> error (step (GumErr e) s) = Some (cmessage (categorizeError e))
            \<and> hasPermission (step (GumErr e) s) = Some False)"
    by (auto simp add: settle_def catch_outer_def Let_def)
  show "start_pc s \<in> {Await1, Await2, Await3} \<and> start_pc (step (GumErr e) s) \<noteq> Idle \<longrightarrow>
      ctype (categorizeError e) = overconstrained \<or> ctype (categorizeError e) = device_not_found"
    by (auto simp add: settle_def catch_outer_def Let_def requestStream_def
        split: pc.splits if_splits)
  show "requests (step (GumErr e) s) \<noteq> requests s \<longrightarrow>
      ctype (categorizeError e) = overconstrained \<or> ctype (categorizeError e) = device_not_found"
    by (auto simp add: settle_def catch_outer_def Let_def requestStream_def
        split: pc.splits if_splits)
  show "\<not> startInFlightRef s \<and> videoElementRef s \<noteq> None \<and> mountedRef s
      \<and> (or_else (fname e) [] = ''NotAllowedError''
          \<or> or_else (fname e) [] = ''PermissionDeniedError'') \<longrightarrow>
      requests (run [Start, GumErr e] s) = requests s @ [WithConstraints]
      \<and> errorType (run [Start, GumErr e] s) = Some permission_denied
      \<and> hasPermission (run [Start, GumErr e] s) = Some False
      \<and> start_pc (run [Start, GumErr e] s) = Idle
      \<and> \<not> startInFlightRef (run [Start, GumErr e] s)
      \<and> streams (run [Start, GumErr e] s) = streams s"
    by (auto simp add: start_sync_def requestStream_def settle_def catch_outer_def Let_def
        categorizeError_def)
qed

theorem negotiation_fallback_witness:
  "start_pc acquiring = Await1 \<and> mountedRef acquiring
   \<and> ctype (categorizeError AbortError) = unknown
   \<and> start_pc (step (GumErr AbortError) acquiring) = Idle
   \<and> requests (step (GumErr AbortError) acquiring) = [WithConstraints]
   \<and> errorType (step (GumErr AbortError) acquiring) = Some unknown
   \<and> start_pc (step (GumErr OverconstrainedError) acquiring) = Await2
   \<and> requests (step (GumErr OverconstrainedError) acquiring) = [WithConstraints, Minimal]
   \<and> ctype (categorizeError OverconstrainedError) = overconstrained
   \<and> \<not> startInFlightRef bound \<and> videoElementRef bound = Some 0 \<and> mountedRef bound
   \<and> requests (run [Start, GumErr NotAllowedError] bound) = [WithConstraints]
   \<and> errorType (run [Start, GumErr NotAllowedError] bound) = Some permission_denied"
proof -
  have a: "start_pc acquiring = Await1 \<and> mountedRef acquiring
      \<and> requests acquiring = [WithConstraints]
      \<and> start_pc (step (GumErr OverconstrainedError) acquiring) = Await2
      \<and> requests (step (GumErr OverconstrainedError) acquiring) = [WithConstraints, Minimal]"
    unfolding acquiring_def OverconstrainedError_def by code_simp
  have b: "\<not> startInFlightRef bound \<and> videoElementRef bound = Some 0 \<and> mountedRef bound
      \<and> requests bound = []"
    unfolding bound_def by code_simp
  have c: "ctype (categorizeError AbortError) = unknown
      \<and> ctype (categorizeError OverconstrainedError) = overconstrained
      \<and> or_else (fname NotAllowedError) [] = ''NotAllowedError''"
    unfolding AbortError_def OverconstrainedError_def NotAllowedError_def by code_simp
  show ?thesis
    using a b c negotiation_fallback [of acquiring AbortError]
      negotiation_fallback [of acquiring OverconstrainedError]
      negotiation_fallback [of bound NotAllowedError]
    by (simp del: step.simps run.simps)
qed

subsection \<open>Overlapping \<open>start()\<close> calls\<close>

lemma budget_step:
  "startInFlightRef s \<Longrightarrow>
     length (requests (step e s)) + attempts_left (start_pc (step e s))
       \<le> length (requests s) + attempts_left (start_pc s)"
  by (cases e) (auto simp: op_defs Let_def split: pc.splits option.splits list.splits)

lemma budget_run:
  "in_flight es s \<Longrightarrow>
     length (requests (run es s)) + attempts_left (start_pc (run es s))
       \<le> length (requests s) + attempts_left (start_pc s)"
proof (induction es arbitrary: s)
  case Nil
  then show ?case by simp
next
  case (Cons e es)
  then have "length (requests (run es (step e s)))
        + attempts_left (start_pc (run es (step e s)))
      \<le> length (requests (step e s)) + attempts_left (start_pc (step e s))"
    by simp
  also have "\<dots> \<le> length (requests s) + attempts_left (start_pc s)"
    using Cons.prems budget_step by simp
  finally show ?case by simp
qed

lemma requests_mono_step: "length (requests s) \<le> length (requests (step e s))"
  by (cases e) (auto simp: op_defs Let_def split: pc.splits option.splits list.splits)

lemma requests_mono_run: "length (requests s) \<le> length (requests (run es s))"
proof (induction es arbitrary: s)
  case Nil
  then show ?case by simp
next
  case (Cons e es)
  have "length (requests s) \<le> length (requests (step e s))"
    by (rule requests_mono_step)
  also have "\<dots> \<le> length (requests (run es (step e s)))"
    by (rule Cons.IH)
  finally show ?case by simp
qed

text \<open>
  C3, as the code has it: a \<^verbatim>\<open>start()\<close> call that finds the in-flight flag set makes no
  acquisition attempt and changes nothing but the diagnostic string, which it
  overwrites. A call that passes both guards makes its first acquisition attempt at
  once, and from that call until it settles, whatever else happens meanwhile, at least one
  and at most three attempts are made in all.
\<close>

theorem start_in_flight_only_diagnostic:
  "(startInFlightRef s \<longrightarrow>
      step Start s = s\<lparr>debugInfo := Some ''Start already in progress, skipping...''\<rparr>
      \<and> requests (step Start s) = requests s)
   \<and> (\<not> startInFlightRef s \<and> videoElementRef s \<noteq> None \<longrightarrow>
      requests (step Start s) = requests s @ [WithConstraints]
      \<and> startInFlightRef (step Start s))
   \<and> (\<not> startInFlightRef s \<and> videoElementRef s \<noteq> None \<and> in_flight es (step Start s) \<longrightarrow>
      length (requests s) + 1 \<le> length (requests (run es (step Start s)))
      \<and> length (requests (run es (step Start s))) \<le> length (requests s) + 3)"
proof (intro conjI impI)
  assume "startInFlightRef s"
  then show "step Start s = s\<lparr>debugInfo := Some ''Start already in progress, skipping...''\<rparr>"
    and "requests (step Start s) = requests s"
    by (simp_all add: start_sync_def)
next
  assume "\<not> startInFlightRef s \<and> videoElementRef s \<noteq> None"
  then show "requests (step Start s) = requests s @ [WithConstraints]"
    and "startInFlightRef (step Start s)"
    by (simp_all add: start_sync_def requestStream_def)
next
  assume a: "\<not> startInFlightRef s \<and> videoElementRef s \<noteq> None \<and> in_flight es (step Start s)"
  then have nf: "\<not> startInFlightRef s" and el: "videoElementRef s \<noteq> None"
    by simp_all
  then have first: "length (requests (step Start s)) = length (requests s) + 1"
    and pc: "start_pc (step Start s) = Await1"
    by (auto simp add: start_sync_def requestStream_def)
  from first requests_mono_run [of "step Start s" es]
  show "length (requests s) + 1 \<le> length (requests (run es (step Start s)))"
    by simp
  from a budget_run [of es "step Start s"] first pc
  show "length (requests (run es (step Start s))) \<le> length (requests s) + 3"
    by simp
qed

theorem start_in_flight_only_diagnostic_witness:
  "startInFlightRef acquiring
   \<and> step Start acquiring
       = acquiring\<lparr>debugInfo := Some ''Start already in progress, skipping...''\<rparr>
   \<and> \<not> startInFlightRef bound \<and> videoElementRef bound = Some 0
   \<and> in_flight [Start, GumErr NotFoundError, Stop, GumErr NotFoundError, EnumOk [camera],
        GumOk [Video]] (step Start bound)
   \<and> length (requests (run [Start, GumErr NotFoundError, Stop, GumErr NotFoundError,
        EnumOk [camera], GumOk [Video]] (step Start bound))) \<le> 3
   \<and> requests (step Start bound) = [WithConstraints]"
proof -
  have a: "startInFlightRef acquiring"
    unfolding acquiring_def by code_simp
  have b: "\<not> startInFlightRef bound \<and> videoElementRef bound = Some 0 \<and> requests bound = []"
    unfolding bound_def by code_simp
  have c: "in_flight [Start, GumErr NotFoundError, Stop, GumErr NotFoundError, EnumOk [camera],
        GumOk [Video]] (step Start bound)"
    unfolding bound_def NotFoundError_def camera_def by code_simp
  show ?thesis
    using a b c start_in_flight_only_diagnostic [of acquiring "[]"]
      start_in_flight_only_diagnostic [of bound "[Start, GumErr NotFoundError, Stop,
        GumErr NotFoundError, EnumOk [camera], GumOk [Video]]"]
    by (simp del: step.simps run.simps in_flight.simps)
qed

text \<open>
  C3 as stated fails twice. The guarded call does change observable state: it overwrites
  the diagnostic the call in flight had set. And acquisition attempts are not one per
  call that is not overlapped: a single call whose first attempt is rejected as
  overconstrained makes two, and a single call with no surface bound makes none.
\<close>

theorem start_in_flight_counterexample:
  "startInFlightRef acquiring
   \<and> debugInfo acquiring = Some ''Requesting camera access (with constraints)...''
   \<and> debugInfo (step Start acquiring) = Some ''Start already in progress, skipping...''
   \<and> requests (run [Start, GumErr OverconstrainedError, GumOk [Video]] bound)
       = [WithConstraints, Minimal]
   \<and> requests (run [Start] (init False)) = []"
  unfolding acquiring_def bound_def OverconstrainedError_def by code_simp

subsection \<open>Invariants of the reachable states\<close>

lemma flag_pc_step: "flag_pc s \<Longrightarrow> flag_pc (step e s)"
  unfolding flag_pc_def
  by (cases e) (auto simp: op_defs Let_def split: pc.splits option.splits list.splits)

lemma flag_pc_reachable: "flag_pc (run es (init a))"
proof -
  have "flag_pc s \<Longrightarrow> flag_pc (run es s)" for s
    by (induction es arbitrary: s) (auto intro: flag_pc_step)
  moreover have "flag_pc (init a)"
    by (simp add: flag_pc_def init_def)
  ultimately show ?thesis by blast
qed

lemma set_update_ended:
  assumes "x \<in> set (ts[k := (ts ! k)\<lparr>ended := True\<rparr>])" and "k < length ts"
  shows "\<exists>y \<in> set ts. tkind x = tkind y \<and> onended x = onended y \<and> (ended y \<longrightarrow> ended x)"
  using assms by (auto simp: set_conv_nth nth_list_update split: if_splits)

lemma held_ok_step: "held_ok s \<Longrightarrow> held_ok (step e s)"
proof (cases e)
  case (TrackEnded sid k)
  assume h: "held_ok s"
  show ?thesis
  proof (cases "sid < length (streams s) \<and> k < length (streams s ! sid)
      \<and> \<not> ended (streams s ! sid ! k)")
    case False
    then show ?thesis using h TrackEnded by auto
  next
    case True
    then show ?thesis using h TrackEnded
      unfolding held_ok_def
      by (auto simp: track_onended_def Let_def nth_list_update dest!: set_update_ended)
  qed
next
  case (GumOk kinds)
  assume h: "held_ok s"
  then show ?thesis using GumOk
    unfolding held_ok_def
    by (auto simp: op_defs Let_def nth_append watch_track_def less_Suc_eq
        split: pc.splits option.splits)
qed (auto simp: held_ok_def op_defs Let_def split: pc.splits option.splits list.splits)

lemma held_ok_reachable: "held_ok (run es (init a))"
proof -
  have "held_ok s \<Longrightarrow> held_ok (run es s)" for s
    by (induction es arbitrary: s) (auto intro: held_ok_step)
  moreover have "held_ok (init a)"
    by (simp add: held_ok_def init_def)
  ultimately show ?thesis by blast
qed

lemma unmounted_step: "\<not> mountedRef s \<Longrightarrow> \<not> mountedRef (step e s)"
  by (cases e) (auto simp: op_defs Let_def split: pc.splits option.splits list.splits)

lemma unmounted_run: "\<not> mountedRef s \<Longrightarrow> \<not> mountedRef (run es s)"
proof (induction es arbitrary: s)
  case Nil
  then show ?case by simp
next
  case (Cons e es)
  from Cons.prems have "\<not> mountedRef (step e s)" by (rule unmounted_step)
  then have "\<not> mountedRef (run es (step e s))" by (rule Cons.IH)
  then show ?case by simp
qed

subsection \<open>A track that ends\<close>

text \<open>
  C2, as the code has it: in a state the hook can reach, when a video track of the held
  stream ends by itself, the handler reports the error kind \<open>stream_ended\<close> and
  withdraws the permission. The stream stays held and stays the source of its surface,
  and the handler stops no track: the store changes only in that the track that ended
  is ended, every other track keeping its state.
\<close>

theorem track_ended_reports_stream_ended:
  fixes es0 :: "event list" and a :: bool
  defines "s \<equiv> run es0 (init a)"
  assumes held: "streamRef s = Some sid"
    and k: "k < length (streams s ! sid)"
    and video: "tkind (streams s ! sid ! k) = Video"
    and live: "\<not> ended (streams s ! sid ! k)"
  shows "errorType (step (TrackEnded sid k) s) = Some stream_ended
    \<and> error (step (TrackEnded sid k) s)
        = Some ''Camera stream ended unexpectedly. Another app may be using the camera.''
    \<and> hasPermission (step (TrackEnded sid k) s) = Some False
    \<and> streamRef (step (TrackEnded sid k) s) = Some sid
    \<and> surfaces (step (TrackEnded sid k) s) = surfaces s
    \<and> streams (step (TrackEnded sid k) s)
        = (streams s)[sid := (streams s ! sid)[k := (streams s ! sid ! k)\<lparr>ended := True\<rparr>]]"
proof -
  have "held_ok s"
    unfolding s_def by (rule held_ok_reachable)
  with held have m: "mountedRef s" and l: "sid < length (streams s)"
    and w: "\<forall>t \<in> set (streams s ! sid). tkind t = Video \<longrightarrow> onended t"
    by (simp_all add: held_ok_def)
  from w k video have "onended (streams s ! sid ! k)"
    using nth_mem by blast
  with m l held k live show ?thesis
    by (simp add: track_onended_def Let_def)
qed

theorem track_ended_reports_stream_ended_witness:
  "streamRef live_av = Some 0 \<and> tkind (streams live_av ! 0 ! 0) = Video
   \<and> errorType (step (TrackEnded 0 0) live_av) = Some stream_ended
   \<and> hasPermission (step (TrackEnded 0 0) live_av) = Some False
   \<and> streamRef (step (TrackEnded 0 0) live_av) = Some 0"
proof -
  have h: "streamRef live_av = Some 0 \<and> 0 < length (streams live_av ! 0)
      \<and> tkind (streams live_av ! 0 ! 0) = Video \<and> \<not> ended (streams live_av ! 0 ! 0)"
    unfolding live_av_def by code_simp
  then show ?thesis
    using track_ended_reports_stream_ended
      [of "[Bind (Some 0), Start, GumOk [Video, Audio]]" False 0 0, folded live_av_def]
    by (simp del: step.simps)
qed

text \<open>
  C2 as stated fails where it has the stream released: after the video track of a stream
  of a video and an audio track has ended, the error is reported, but the stream is still
  held and still the source of the surface, and its audio track has not been stopped.
\<close>

theorem track_ended_not_released_counterexample:
  "errorType (step (TrackEnded 0 0) live_av) = Some stream_ended
   \<and> streamRef (step (TrackEnded 0 0) live_av) = Some 0
   \<and> srcObject (surfaces (step (TrackEnded 0 0) live_av) 0) = Some 0
   \<and> \<not> ended (streams (step (TrackEnded 0 0) live_av) ! 0 ! 1)
   \<and> stop_calls (streams (step (TrackEnded 0 0) live_av) ! 0 ! 1) = 0"
  unfolding live_av_def by code_simp

subsection \<open>Disposal\<close>

lemma released_step: "released sid s \<Longrightarrow> released sid (step e s)"
proof (cases e)
  case (TrackEnded sid' k)
  assume h: "released sid s"
  show ?thesis
  proof (cases "sid' < length (streams s) \<and> k < length (streams s ! sid')
      \<and> \<not> ended (streams s ! sid' ! k)")
    case False
    then show ?thesis using h TrackEnded by auto
  next
    case True
    then show ?thesis using h TrackEnded
      unfolding released_def
      by (auto simp: track_onended_def Let_def nth_list_update dest!: set_update_ended
          split: if_splits)
  qed
next
  case (GumOk kinds)
  assume "released sid s"
  then show ?thesis using GumOk
    unfolding released_def
    by (auto simp: op_defs Let_def nth_append nth_list_update
        split: pc.splits option.splits if_splits)
next
  case Stop
  assume "released sid s"
  then show ?thesis using Stop
    unfolding released_def
    by (auto simp: op_defs nth_list_update stop_track_def split: option.splits if_splits)
next
  case Retry
  assume "released sid s"
  then show ?thesis using Retry
    unfolding released_def
    by (auto simp: op_defs Let_def nth_list_update stop_track_def
        split: option.splits if_splits)
next
  case Dispose
  assume "released sid s"
  then show ?thesis using Dispose
    unfolding released_def
    by (auto simp: op_defs Let_def nth_list_update stop_track_def
        split: option.splits if_splits)
qed (auto simp: released_def op_defs Let_def split: pc.splits option.splits list.splits)

lemma released_run: "released sid s \<Longrightarrow> released sid (run es s)"
proof (induction es arbitrary: s)
  case Nil
  then show ?case by simp
next
  case (Cons e es)
  from Cons.prems have "released sid (step e s)" by (rule released_step)
  then have "released sid (run es (step e s))" by (rule Cons.IH)
  then show ?case by simp
qed

lemma list_all_stopped: "list_all ended (map stop_track ts)"
  by (simp add: list_all_iff stop_track_def)

lemma acquired_unmounted:
  assumes "\<not> mountedRef s" and "start_pc s \<in> {Await1, Await2, Await3}"
  shows "step (GumOk kinds) s =
    settle (s\<lparr>streams := streams s @ [map (stop_track \<circ> new_track) kinds],
              debugInfo := Some ''Component unmounted, stopped stream.''\<rparr>)"
  using assms by (auto simp: acquired_def Let_def stop_all_tracks_def)

lemma cleanup_fields:
  "\<not> mountedRef (cleanup s)" "streamRef (cleanup s) = None"
  "streams (cleanup s) =
     (case streamRef s of None \<Rightarrow> streams s
      | Some sid \<Rightarrow> (streams s)[sid := map stop_track (streams s ! sid)])"
  "videoElementRef s = Some j \<Longrightarrow> srcObject (surfaces (cleanup s) j) = None"
  by (simp_all add: cleanup_def Let_def clear_srcObject_def stop_all_tracks_def
      split: option.splits)

text \<open>
  C8, as the code has it: in a state the hook can reach, with the component unmounted and
  \<^verbatim>\<open>start()\<close> suspended at an acquisition, a stream the acquisition then resolves with
  is put in the store with every track stopped, is not held, is the source of no surface,
  and stays so whatever happens afterwards. The cleanup itself, from any reachable state,
  marks the component unmounted for good, stops every track of the stream held and drops
  it. It clears the source of the surface bound at that moment and of no other: with no
  surface bound every surface keeps its source.
\<close>

theorem dispose_releases:
  fixes es0 :: "event list" and a :: bool
  defines "s \<equiv> run es0 (init a)"
  shows "(\<not> mountedRef s \<and> start_pc s \<in> {Await1, Await2, Await3} \<longrightarrow>
        streams (step (GumOk kinds) s) = streams s @ [map (stop_track \<circ> new_track) kinds]
        \<and> list_all ended (streams (step (GumOk kinds) s) ! length (streams s))
        \<and> streamRef (step (GumOk kinds) s) = None
        \<and> surfaces (step (GumOk kinds) s) = surfaces s
        \<and> released (length (streams s)) (run es (step (GumOk kinds) s)))
    \<and> \<not> mountedRef (run es (step Dispose s))
    \<and> streamRef (step Dispose s) = None
    \<and> (\<forall>sid. streamRef s = Some sid \<longrightarrow>
          streams (step Dispose s) ! sid = map stop_track (streams s ! sid)
          \<and> list_all ended (streams (step Dispose s) ! sid))
    \<and> (\<forall>j. videoElementRef s = Some j \<longrightarrow> srcObject (surfaces (step Dispose s) j) = None)
    \<and> surfaces (step Dispose s) =
        (case videoElementRef s of None \<Rightarrow> surfaces s
         | Some j \<Rightarrow> (surfaces s)(j := (surfaces s j)\<lparr>srcObject := None\<rparr>))"
proof (intro conjI impI allI)
  have ok: "held_ok s"
    unfolding s_def by (rule held_ok_reachable)
  show "surfaces (step Dispose s) =
        (case videoElementRef s of None \<Rightarrow> surfaces s
         | Some j \<Rightarrow> (surfaces s)(j := (surfaces s j)\<lparr>srcObject := None\<rparr>))"
    by (simp add: cleanup_def Let_def clear_srcObject_def stop_all_tracks_def
        split: option.splits)
  {
    assume h: "\<not> mountedRef s \<and> start_pc s \<in> {Await1, Await2, Await3}"
    then have "\<not> mountedRef s" and "start_pc s \<in> {Await1, Await2, Await3}"
      by simp_all
    then have eq: "step (GumOk kinds) s =
        settle (s\<lparr>streams := streams s @ [map (stop_track \<circ> new_track) kinds],
                  debugInfo := Some ''Component unmounted, stopped stream.''\<rparr>)"
      by (rule acquired_unmounted)
    show "streams (step (GumOk kinds) s) = streams s @ [map (stop_track \<circ> new_track) kinds]"
      by (simp only: eq) (simp add: settle_def)
    show "list_all ended (streams (step (GumOk kinds) s) ! length (streams s))"
      by (simp only: eq) (simp add: settle_def list_all_iff stop_track_def)
    from ok h show none: "streamRef (step (GumOk kinds) s) = None"
      by (simp only: eq) (auto simp add: settle_def held_ok_def)
    show "surfaces (step (GumOk kinds) s) = surfaces s"
      by (simp only: eq) (simp add: settle_def)
    from ok h have "released (length (streams s)) (step (GumOk kinds) s)"
      by (simp only: eq) (auto simp add: settle_def released_def held_ok_def stop_track_def)
    then show "released (length (streams s)) (run es (step (GumOk kinds) s))"
      by (rule released_run)
  }
  show "\<not> mountedRef (run es (step Dispose s))"
    by (rule unmounted_run) (simp add: cleanup_fields)
  show "streamRef (step Dispose s) = None"
    by (simp add: cleanup_fields)
  {
    fix sid
    assume h: "streamRef s = Some sid"
    with ok have l: "sid < length (streams s)"
      by (simp add: held_ok_def)
    from h show "streams (step Dispose s) ! sid = map stop_track (streams s ! sid)"
      using l by (simp add: cleanup_fields)
    then show "list_all ended (streams (step Dispose s) ! sid)"
      by (simp add: list_all_stopped)
  }
  {
    fix j
    assume "videoElementRef s = Some j"
    then show "srcObject (surfaces (step Dispose s) j) = None"
      by (simp add: cleanup_fields)
  }
qed

theorem dispose_releases_witness:
  "\<not> mountedRef disposed_acquiring \<and> start_pc disposed_acquiring = Await1
   \<and> streams (step (GumOk [Video]) disposed_acquiring)
       = [ [\<lparr>tkind = Video, ended = True, onended = False, stop_calls = 1\<rparr>] ]
   \<and> released 0 (run [Bind (Some 1), Start, Retry, Timer] (step (GumOk [Video]) disposed_acquiring))
   \<and> streamRef live_av = Some 0 \<and> videoElementRef live_av = Some 0
   \<and> streamRef (step Dispose live_av) = None
   \<and> list_all ended (streams (step Dispose live_av) ! 0)
   \<and> srcObject (surfaces (step Dispose live_av) 0) = None
   \<and> streamRef withdrawn = Some 0 \<and> videoElementRef withdrawn = None
   \<and> streamRef (step Dispose withdrawn) = None
   \<and> list_all ended (streams (step Dispose withdrawn) ! 0)
   \<and> surfaces (step Dispose withdrawn) = surfaces withdrawn"
proof -
  have a: "\<not> mountedRef disposed_acquiring \<and> start_pc disposed_acquiring = Await1
      \<and> streams disposed_acquiring = []"
    unfolding disposed_acquiring_def by code_simp
  have b: "streamRef live_av = Some 0 \<and> videoElementRef live_av = Some 0"
    unfolding live_av_def by code_simp
  have c: "streamRef withdrawn = Some 0 \<and> videoElementRef withdrawn = None"
    unfolding withdrawn_def by code_simp
  show ?thesis
    using a b c
      dispose_releases [of "[Bind (Some 0), Start, Dispose]" False "[Video]"
        "[Bind (Some 1), Start, Retry, Timer]", folded disposed_acquiring_def]
      dispose_releases [of "[Bind (Some 0), Start, GumOk [Video, Audio]]" False "[]" "[]",
        folded live_av_def]
      dispose_releases [of "[Bind (Some 0), Start, GumOk [Video], Bind None]" False "[]" "[]",
        folded withdrawn_def]
    by (simp del: step.simps run.simps add: stop_track_def new_track_def list_all_stopped)
qed

text \<open>
  C8 as stated fails where it has the cleanup clear the surface's source in every state:
  the cleanup reaches a surface only through \<^verbatim>\<open>videoElementRef.current\<close>. When the host
  has withdrawn the video element before the component unmounts, the cleanup stops the
  tracks and drops the stream, but the element keeps the stopped stream as its source.
\<close>

theorem dispose_withdrawn_surface_counterexample:
  "videoElementRef withdrawn = None
   \<and> srcObject (surfaces withdrawn 0) = Some 0
   \<and> \<not> mountedRef (step Dispose withdrawn)
   \<and> streamRef (step Dispose withdrawn) = None
   \<and> ended (streams (step Dispose withdrawn) ! 0 ! 0)
   \<and> srcObject (surfaces (step Dispose withdrawn) 0) = Some 0"
  unfolding withdrawn_def by code_simp

subsection \<open>No stream left running\<close>

lemma stopped_all:
  assumes "\<forall>sid<length xs. (\<exists>t\<in>set (xs ! sid). \<not> ended t) \<longrightarrow> x = sid"
    and "sid < length xs"
    and "t \<in> set (xs[x := map stop_track (xs ! x)] ! sid)"
  shows "ended t"
proof (cases "sid = x")
  case True
  with assms(2,3) show ?thesis by (auto simp: stop_track_def)
next
  case False
  with assms(3) have "t \<in> set (xs ! sid)" by simp
  with assms(1,2) False show ?thesis by blast
qed

lemma leak_free_step: "leak_free s \<Longrightarrow> no_replace e s \<Longrightarrow> leak_free (step e s)"
proof (cases e)
  case (TrackEnded sid k)
  assume h: "leak_free s"
  show ?thesis
  proof (cases "sid < length (streams s) \<and> k < length (streams s ! sid)
      \<and> \<not> ended (streams s ! sid ! k)")
    case False
    then show ?thesis using h TrackEnded by auto
  next
    case True
    then show ?thesis using h TrackEnded
      unfolding leak_free_def
      by (auto simp: track_onended_def Let_def nth_list_update dest!: set_update_ended
          split: if_splits)
  qed
next
  case (GumOk kinds)
  assume "leak_free s" "no_replace e s"
  then show ?thesis using GumOk
    unfolding leak_free_def no_replace_def
    by (auto simp: op_defs Let_def nth_append watch_track_def stop_track_def new_track_def
        less_Suc_eq split: pc.splits option.splits if_splits)
next
  case Stop
  assume "leak_free s"
  then show ?thesis using Stop
    unfolding leak_free_def
    by (auto simp: op_defs split: option.splits dest: stopped_all)
next
  case Retry
  assume "leak_free s"
  then show ?thesis using Retry
    unfolding leak_free_def
    by (auto simp: op_defs Let_def split: option.splits dest: stopped_all)
next
  case Dispose
  assume "leak_free s"
  then show ?thesis using Dispose
    unfolding leak_free_def
    by (auto simp: op_defs Let_def split: option.splits dest: stopped_all)
qed (auto simp: leak_free_def op_defs Let_def split: pc.splits option.splits list.splits)

lemma leak_free_run: "leak_free s \<Longrightarrow> safe_run es s \<Longrightarrow> leak_free (run es s)"
proof (induction es arbitrary: s)
  case Nil
  then show ?case by simp
next
  case (Cons e es)
  from Cons.prems have "leak_free (step e s)" and "safe_run es (step e s)"
    by (simp_all add: leak_free_step)
  then have "leak_free (run es (step e s))" by (rule Cons.IH)
  then show ?case by simp
qed

lemma leak_free_init: "leak_free (init a)"
  by (simp add: leak_free_def init_def)

lemma leak_free_all_stopped: "leak_free s \<Longrightarrow> streamRef s = None \<Longrightarrow> all_stopped s"
  unfolding leak_free_def all_stopped_def
  by (metis in_set_conv_nth option.distinct(1))

lemma retry_sync_streamRef: "streamRef (retry_sync s) = None"
  by (simp add: retry_sync_def Let_def stop_streamRef)

lemma cleanup_streamRef: "streamRef (cleanup s) = None"
  by (simp add: cleanup_def Let_def clear_srcObject_def stop_all_tracks_def
      split: option.splits)

text \<open>
  C1, as the code has it. The hook holds at most one stream, \<^verbatim>\<open>streamRef.current\<close>.
  Along every run from the initial state in which no acquisition replaces a stream that
  is still held, no stream but the held one has a track that is not ended; and from the
  state such a run reaches, \<^verbatim>\<open>stop()\<close>, \<^verbatim>\<open>retry()\<close> and the unmount cleanup each
  leave every track of every stream ended. The end of a track changes neither the held
  stream nor any surface: the stream is not released by it.
\<close>

theorem no_stream_left_running:
  assumes "safe_run es (init a)"
  shows "leak_free (run es (init a))
    \<and> all_stopped (step Stop (run es (init a)))
    \<and> all_stopped (step Retry (run es (init a)))
    \<and> all_stopped (step Dispose (run es (init a)))
    \<and> streamRef (step (TrackEnded sid k) (run es (init a))) = streamRef (run es (init a))
    \<and> surfaces (step (TrackEnded sid k) (run es (init a))) = surfaces (run es (init a))"
proof -
  let ?s = "run es (init a)"
  have lf: "leak_free ?s"
    using leak_free_init assms by (rule leak_free_run)
  have "leak_free (step Stop ?s)"
    using lf by (rule leak_free_step) (simp add: no_replace_def)
  then have 1: "all_stopped (step Stop ?s)"
    by (rule leak_free_all_stopped) (simp add: stop_streamRef)
  have "leak_free (step Retry ?s)"
    using lf by (rule leak_free_step) (simp add: no_replace_def)
  then have 2: "all_stopped (step Retry ?s)"
    by (rule leak_free_all_stopped) (simp add: retry_sync_streamRef)
  have "leak_free (step Dispose ?s)"
    using lf by (rule leak_free_step) (simp add: no_replace_def)
  then have 3: "all_stopped (step Dispose ?s)"
    by (rule leak_free_all_stopped) (simp add: cleanup_streamRef)
  have 4: "streamRef (step (TrackEnded sid k) ?s) = streamRef ?s
      \<and> surfaces (step (TrackEnded sid k) ?s) = surfaces ?s"
    by (simp add: track_onended_def Let_def)
  from lf 1 2 3 4 show ?thesis by blast
qed

theorem no_stream_left_running_witness:
  "safe_run [Bind (Some 0), Start, GumOk [Video, Audio], TrackEnded 0 0, Retry, Timer,
      GumErr OverconstrainedError, Bind None, GumOk [Video], Bind (Some 1), Start,
      GumOk [Video]] (init False)
   \<and> leak_free (run [Bind (Some 0), Start, GumOk [Video, Audio], TrackEnded 0 0, Retry, Timer,
      GumErr OverconstrainedError, Bind None, GumOk [Video], Bind (Some 1), Start,
      GumOk [Video]] (init False))
   \<and> streamRef (run [Bind (Some 0), Start, GumOk [Video, Audio], TrackEnded 0 0, Retry, Timer,
      GumErr OverconstrainedError, Bind None, GumOk [Video], Bind (Some 1), Start,
      GumOk [Video]] (init False)) = Some 2
   \<and> all_stopped (step Stop (run [Bind (Some 0), Start, GumOk [Video, Audio], TrackEnded 0 0,
      Retry, Timer, GumErr OverconstrainedError, Bind None, GumOk [Video], Bind (Some 1), Start,
      GumOk [Video]] (init False)))"
proof -
  have h: "safe_run [Bind (Some 0), Start, GumOk [Video, Audio], TrackEnded 0 0, Retry, Timer,
      GumErr OverconstrainedError, Bind None, GumOk [Video], Bind (Some 1), Start,
      GumOk [Video]] (init False)"
    unfolding OverconstrainedError_def by code_simp
  have r: "streamRef (run [Bind (Some 0), Start, GumOk [Video, Audio], TrackEnded 0 0, Retry,
      Timer, GumErr OverconstrainedError, Bind None, GumOk [Video], Bind (Some 1), Start,
      GumOk [Video]] (init False)) = Some 2"
    unfolding OverconstrainedError_def by code_simp
  from h r no_stream_left_running [OF h, of 0 0] show ?thesis
    by (simp del: step.simps run.simps safe_run.simps)
qed

text \<open>
  C1 as stated fails on two of its three ways out of the live state. Replacement:
  \<^verbatim>\<open>start()\<close> called while a stream is held acquires a second stream and overwrites the
  reference, so two streams have a running track, and the first can no longer be stopped,
  not even by \<^verbatim>\<open>stop()\<close>. Error: after a video track has ended the error is reported
  while the audio track of the stream still runs.
\<close>

theorem stream_left_running_counterexample:
  "streamRef live_twice = Some 1
   \<and> \<not> ended (streams live_twice ! 0 ! 0)
   \<and> \<not> ended (streams live_twice ! 1 ! 0)
   \<and> \<not> ended (streams (step Stop live_twice) ! 0 ! 0)
   \<and> errorType (step (TrackEnded 0 0) live_av) = Some stream_ended
   \<and> \<not> ended (streams (step (TrackEnded 0 0) live_av) ! 0 ! 1)"
  unfolding live_twice_def live_av_def by code_simp

subsection \<open>\<open>retry()\<close>\<close>

lemma start_sync_retry [simp]:
  "retry_timers (snd (start_sync s)) = retry_timers s"
  "retry_awaiting (snd (start_sync s)) = retry_awaiting s"
  "isRetrying (snd (start_sync s)) = isRetrying s"
  "startInFlightRef s \<Longrightarrow> startInFlightRef (snd (start_sync s))"
  by (auto simp: start_sync_def requestStream_def split: if_splits)

lemma catch_outer_retry [simp]:
  "retry_timers (catch_outer e s) = retry_timers s"
  "retry_awaiting (catch_outer e s) = retry_awaiting s"
  "isRetrying (catch_outer e s) = isRetrying s"
  "startInFlightRef (catch_outer e s) = startInFlightRef s"
  by (simp_all add: catch_outer_def Let_def)

lemma acquired_retry [simp]:
  "retry_timers (acquired k s) = retry_timers s"
  "retry_awaiting (acquired k s) = retry_awaiting s"
  "isRetrying (acquired k s) = isRetrying s"
  "startInFlightRef (acquired k s) = startInFlightRef s"
  by (simp_all add: acquired_def Let_def attachStreamToVideo_def attemptPlay_def
      stop_all_tracks_def split: option.splits)

lemma stop_retry [simp]:
  "retry_timers (stop s) = retry_timers s"
  "retry_awaiting (stop s) = retry_awaiting s"
  "isRetrying (stop s) = isRetrying s"
  "startInFlightRef (stop s) = startInFlightRef s"
  "start_pc (stop s) = start_pc s"
  "requests (stop s) = requests s"
  "videoElementRef (stop s) = videoElementRef s"
  by (simp_all add: stop_def clear_srcObject_def stop_all_tracks_def split: option.splits)

lemma settle_retry: "single_retry s \<Longrightarrow> single_retry (settle s)"
  by (auto simp: single_retry_def settle_def)

lemma single_retry_fields:
  assumes "retry_timers s' = retry_timers s" and "retry_awaiting s' = retry_awaiting s"
    and "isRetrying s' = isRetrying s" and "startInFlightRef s \<longrightarrow> startInFlightRef s'"
    and "single_retry s"
  shows "single_retry s'"
  using assms by (auto simp: single_retry_def)

lemma sr_Start: "single_retry s \<Longrightarrow> single_retry (step Start s)"
  by (rule single_retry_fields[of _ s]) simp_all

lemma sr_Stop: "single_retry s \<Longrightarrow> single_retry (step Stop s)"
  by (rule single_retry_fields[of _ s]) simp_all

lemma sr_Timer: "single_retry s \<Longrightarrow> single_retry (step Timer s)"
  by (cases "start_sync (s\<lparr>retry_timers := retry_timers s - 1\<rparr>)")
     (auto simp: single_retry_def retry_resume_def start_sync_def requestStream_def
       split: if_splits)

lemma sr_acquired: "single_retry s \<Longrightarrow> single_retry (acquired k s)"
  by (rule single_retry_fields[of _ s]) simp_all

lemma sr_catch: "single_retry s \<Longrightarrow> single_retry (catch_outer k s)"
  by (rule single_retry_fields[of _ s]) simp_all

lemma sr_GumOk: "single_retry s \<Longrightarrow> single_retry (step (GumOk k) s)"
  by (simp add: settle_retry sr_acquired split: pc.splits)

lemma sr_request:
  "single_retry s \<Longrightarrow> single_retry (requestStream c l (s\<lparr>debugInfo := d, start_pc := p\<rparr>))"
  by (simp add: single_retry_def requestStream_def)

lemma sr_debug: "single_retry s \<Longrightarrow> single_retry (s\<lparr>debugInfo := d, start_pc := p\<rparr>)"
  by (simp add: single_retry_def)

lemma sr_GumErr: "single_retry s \<Longrightarrow> single_retry (step (GumErr k) s)"
  by (simp add: settle_retry sr_catch sr_request sr_debug Let_def split: pc.splits)

lemma sr_EnumOk: "single_retry s \<Longrightarrow> single_retry (step (EnumOk k) s)"
  by (simp add: settle_retry sr_catch sr_request Let_def split: pc.splits list.splits)

lemma sr_EnumErr: "single_retry s \<Longrightarrow> single_retry (step (EnumErr k) s)"
  by (simp add: settle_retry sr_catch sr_request Let_def split: pc.splits list.splits)

lemma sr_TrackEnded: "single_retry s \<Longrightarrow> single_retry (step (TrackEnded i k) s)"
  by (rule single_retry_fields[of _ s]) (simp_all add: Let_def track_onended_def)

lemma sr_Bind: "single_retry s \<Longrightarrow> single_retry (step (Bind n) s)"
  by (rule single_retry_fields[of _ s]) (simp_all add: Let_def videoCallbackRef_def)

lemma sr_Raf: "single_retry s \<Longrightarrow> single_retry (step Raf s)"
  by (rule single_retry_fields[of _ s]) (simp_all add: Let_def raf_callback_def)

lemma sr_Dispose: "single_retry s \<Longrightarrow> single_retry (step Dispose s)"
  by (rule single_retry_fields[of _ s])
     (simp_all add: Let_def cleanup_def clear_srcObject_def stop_all_tracks_def
       split: option.splits)

lemma sr_video:
  "single_retry s \<Longrightarrow>
     single_retry (step (SetReadyState j r) s) \<and> single_retry (step (LoadedMetadata j) s)
     \<and> single_retry (step PlayOk s) \<and> single_retry (step (PlayErr f) s)
     \<and> single_retry (step (VideoEvent j v) s)"
  by (simp add: single_retry_def attemptPlay_def play_rejected_def Let_def)

lemma single_retry_step: "single_retry s \<Longrightarrow> e \<noteq> Retry \<Longrightarrow> single_retry (step e s)"
proof (cases e)
  case Retry
  assume "e \<noteq> Retry"
  with Retry show ?thesis by simp
qed (simp_all only: sr_Start sr_Stop sr_Timer sr_GumOk sr_GumErr sr_EnumOk sr_EnumErr
       sr_TrackEnded sr_Bind sr_Raf sr_Dispose sr_video)

lemma single_retry_run: "single_retry s \<Longrightarrow> Retry \<notin> set es \<Longrightarrow> single_retry (run es s)"
proof (induction es arbitrary: s)
  case Nil
  then show ?case by simp
next
  case (Cons e es)
  from Cons.prems(2) have ne: "e \<noteq> Retry" and rest: "Retry \<notin> set es" by auto
  from Cons.prems(1) ne have "single_retry (step e s)" by (rule single_retry_step)
  then have "single_retry (run es (step e s))" using rest by (rule Cons.IH)
  then show ?case by simp
qed

lemma single_retry_Retry:
  "retry_timers s = 0 \<Longrightarrow> \<not> retry_awaiting s \<Longrightarrow> single_retry (step Retry s)"
  unfolding single_retry_def by (simp add: retry_sync_def Let_def)

lemma retry_sync_fields:
  "isRetrying (retry_sync s)" "streamRef (retry_sync s) = None"
  "requests (retry_sync s) = requests s" "start_pc (retry_sync s) = start_pc s"
  "startInFlightRef (retry_sync s) = startInFlightRef s"
  "videoElementRef (retry_sync s) = videoElementRef s"
  "retry_timers (retry_sync s) = Suc (retry_timers s)"
  "retry_awaiting (retry_sync s) = retry_awaiting s"
  "streams (retry_sync s) =
     (case streamRef s of None \<Rightarrow> streams s
      | Some sid \<Rightarrow> (streams s)[sid := map stop_track (streams s ! sid)])"
  "videoElementRef s = Some j \<Longrightarrow> srcObject (surfaces (retry_sync s) j) = None"
  by (simp_all add: retry_sync_def Let_def stop_def clear_srcObject_def stop_all_tracks_def
      split: option.splits)

lemma timers_keep: "e \<noteq> Retry \<Longrightarrow> e \<noteq> Timer \<Longrightarrow> retry_timers (step e s) = retry_timers s"
  by (cases e) (auto simp: op_defs Let_def split: pc.splits option.splits list.splits)

lemma timers_le: "e \<noteq> Retry \<Longrightarrow> retry_timers (step e s) \<le> retry_timers s"
  by (cases e)
     (auto simp: op_defs Let_def split: pc.splits option.splits list.splits prod.splits)

lemma idle_step:
  "retry_timers s = 0 \<Longrightarrow> \<not> retry_awaiting s \<Longrightarrow> e \<noteq> Retry \<Longrightarrow>
     retry_timers (step e s) = 0 \<and> \<not> retry_awaiting (step e s)"
  by (cases e) (auto simp: op_defs Let_def split: pc.splits option.splits list.splits)

lemma idle_run:
  "retry_timers s = 0 \<Longrightarrow> \<not> retry_awaiting s \<Longrightarrow> Retry \<notin> set es \<Longrightarrow>
     retry_timers (run es s) = 0 \<and> \<not> retry_awaiting (run es s)"
proof (induction es arbitrary: s)
  case Nil
  then show ?case by simp
next
  case (Cons e es)
  from Cons.prems(3) have ne: "e \<noteq> Retry" and rest: "Retry \<notin> set es" by auto
  from Cons.prems(1,2) ne
  have "retry_timers (step e s) = 0 \<and> \<not> retry_awaiting (step e s)"
    by (rule idle_step)
  then have "retry_timers (run es (step e s)) = 0 \<and> \<not> retry_awaiting (run es (step e s))"
    using rest Cons.IH by blast
  then show ?case by simp
qed

lemma awaiting_flag_step:
  "retry_awaiting s \<Longrightarrow> startInFlightRef s \<Longrightarrow>
     retry_awaiting (step e s) \<longleftrightarrow> startInFlightRef (step e s)"
  by (cases e) (auto simp: op_defs Let_def split: pc.splits option.splits list.splits)

lemma settled_clears:
  "retry_awaiting s \<Longrightarrow> startInFlightRef s \<Longrightarrow> \<not> startInFlightRef (step e s) \<Longrightarrow>
     \<not> isRetrying (step e s)"
  by (cases e)
     (auto simp: op_defs Let_def split: pc.splits option.splits list.splits if_splits)

text \<open>While a single \<^verbatim>\<open>retry()\<close> waits for its timeout.\<close>

lemma delay_run:
  assumes "single_retry s" and "retry_timers s = Suc 0"
    and "Retry \<notin> set es" and "Timer \<notin> set es"
  shows "single_retry (run es s) \<and> retry_timers (run es s) = Suc 0
    \<and> \<not> retry_awaiting (run es s) \<and> isRetrying (run es s)"
proof -
  have t: "retry_timers (run es s) = retry_timers s"
    using assms(3,4)
  proof (induction es arbitrary: s)
    case Nil
    then show ?case by simp
  next
    case (Cons e es)
    then have "e \<noteq> Retry" and "e \<noteq> Timer" and "Retry \<notin> set es" and "Timer \<notin> set es"
      by auto
    then have "retry_timers (run es (step e s)) = retry_timers (step e s)"
      and "retry_timers (step e s) = retry_timers s"
      using Cons.IH timers_keep by blast+
    then show ?case by simp
  qed
  have sr: "single_retry (run es s)"
    using assms(1,3) by (rule single_retry_run)
  from t assms(2) have "retry_timers (run es s) = Suc 0" by simp
  with sr show ?thesis by (auto simp: single_retry_def)
qed

text \<open>While the \<^verbatim>\<open>start()\<close> that a single \<^verbatim>\<open>retry()\<close> called is in flight.\<close>

lemma awaited_run:
  assumes "single_retry s" and "retry_awaiting s"
    and "Retry \<notin> set es" and "in_flight es s"
  shows "retry_timers (run es s) = 0
    \<and> (retry_awaiting (run es s) \<longleftrightarrow> startInFlightRef (run es s))
    \<and> (isRetrying (run es s) \<longleftrightarrow> startInFlightRef (run es s))"
  using assms
proof (induction es arbitrary: s)
  case Nil
  then show ?case by (auto simp: single_retry_def)
next
  case (Cons e es)
  from Cons.prems(3) have ne: "e \<noteq> Retry" and rest: "Retry \<notin> set es" by auto
  from Cons.prems(4) have fl: "startInFlightRef s" and fr: "in_flight es (step e s)"
    by simp_all
  from Cons.prems(1,2) have t0: "retry_timers s = 0"
    by (auto simp: single_retry_def)
  have sr: "single_retry (step e s)"
    using Cons.prems(1) ne by (rule single_retry_step)
  have t1: "retry_timers (step e s) = 0"
    using timers_le [OF ne, of s] t0 by simp
  have af: "retry_awaiting (step e s) \<longleftrightarrow> startInFlightRef (step e s)"
    using Cons.prems(2) fl by (rule awaiting_flag_step)
  show ?case
  proof (cases "retry_awaiting (step e s)")
    case True
    with sr rest fr Cons.IH [of "step e s"] show ?thesis by simp
  next
    case False
    with af have nf: "\<not> startInFlightRef (step e s)" by simp
    with fr have "es = []" by (cases es) simp_all
    moreover from sr t1 False have "\<not> isRetrying (step e s)"
      by (auto simp: single_retry_def)
    ultimately show ?thesis using t1 False nf by simp
  qed
qed

lemma timer_guarded:
  assumes "single_retry s" and "retry_timers s = Suc 0"
    and "startInFlightRef s \<or> videoElementRef s = None"
  shows "\<not> isRetrying (step Timer s) \<and> requests (step Timer s) = requests s
    \<and> retry_timers (step Timer s) = 0 \<and> \<not> retry_awaiting (step Timer s)"
  using assms
  by (auto simp: single_retry_def retry_resume_def start_sync_def)

lemma timer_launched:
  assumes "single_retry s" and "retry_timers s = Suc 0"
    and "\<not> startInFlightRef s" and "videoElementRef s \<noteq> None"
  shows "single_retry (step Timer s) \<and> retry_awaiting (step Timer s)
    \<and> requests (step Timer s) = requests s @ [WithConstraints]"
  using assms
  by (auto simp: single_retry_def retry_resume_def start_sync_def requestStream_def)

text \<open>
  C5, as the code has it. From any state the hook can reach, an error state included,
  \<^verbatim>\<open>retry()\<close> sets \<^verbatim>\<open>isRetrying\<close> and does a full \<^verbatim>\<open>stop()\<close> at once: every track
  of the held stream is stopped, the reference dropped and the source of the bound surface
  cleared; no acquisition attempt is made and \<^verbatim>\<open>start()\<close> is not entered before the
  timeout fires. When it fires, \<^verbatim>\<open>start()\<close> is called: past its guards it makes the
  first acquisition attempt and \<^verbatim>\<open>retry()\<close> waits for it; stopped at a guard it has
  settled already and \<^verbatim>\<open>isRetrying\<close> is cleared. Whatever event settles the
  \<^verbatim>\<open>start()\<close> that a \<^verbatim>\<open>retry()\<close> waits for (a stream, or a failure at any of the three
  attempts or at the enumeration), \<^verbatim>\<open>isRetrying\<close> is cleared in that step.

  Provided no other \<^verbatim>\<open>retry()\<close> call overlaps this one (none is under way when it is
  made, as when none was made before, and none is made before it ends), whatever else
  happens meanwhile: \<^verbatim>\<open>isRetrying\<close> is true all the time until the timeout fires;
  if \<^verbatim>\<open>start()\<close> then returns at a guard, \<^verbatim>\<open>isRetrying\<close> is false at once; and if
  it goes in flight, then up to and including the event that settles it \<^verbatim>\<open>isRetrying\<close>
  is true exactly when the in-flight flag is still set, so it is true while that
  \<^verbatim>\<open>start()\<close> runs and false as soon as it has settled.
\<close>

theorem retry_stop_delay_start:
  fixes es0 es1 es2 :: "event list" and a :: bool
  defines "s \<equiv> run es0 (init a)"
    and "s2 \<equiv> run es1 (step Retry (run es0 (init a)))"
    and "s3 \<equiv> step Timer (run es1 (step Retry (run es0 (init a))))"
  shows "isRetrying (step Retry s) \<and> streamRef (step Retry s) = None
    \<and> (\<forall>sid. streamRef s = Some sid \<longrightarrow>
          streams (step Retry s) ! sid = map stop_track (streams s ! sid)
          \<and> list_all ended (streams (step Retry s) ! sid))
    \<and> (\<forall>j. videoElementRef s = Some j \<longrightarrow> srcObject (surfaces (step Retry s) j) = None)
    \<and> requests (step Retry s) = requests s
    \<and> start_pc (step Retry s) = start_pc s
    \<and> startInFlightRef (step Retry s) = startInFlightRef s
    \<and> retry_timers (step Retry s) = Suc (retry_timers s)
    \<and> (\<not> startInFlightRef s \<and> videoElementRef s \<noteq> None \<longrightarrow>
          requests (step Timer (step Retry s)) = requests s @ [WithConstraints]
          \<and> start_pc (step Timer (step Retry s)) = Await1
          \<and> isRetrying (step Timer (step Retry s))
          \<and> retry_awaiting (step Timer (step Retry s)))
    \<and> (startInFlightRef s \<or> videoElementRef s = None \<longrightarrow>
          requests (step Timer (step Retry s)) = requests s
          \<and> \<not> isRetrying (step Timer (step Retry s)))
    \<and> (retry_awaiting s' \<and> start_pc s' \<in> {Await1, Await2, Await3} \<longrightarrow>
          \<not> isRetrying (step (GumOk kinds) s')
          \<and> (ctype (categorizeError e) \<noteq> overconstrained
               \<and> ctype (categorizeError e) \<noteq> device_not_found \<longrightarrow>
             \<not> isRetrying (step (GumErr e) s')))
    \<and> (retry_awaiting s' \<and> startInFlightRef s' \<and> \<not> startInFlightRef (step e' s') \<longrightarrow>
          \<not> isRetrying (step e' s'))
    \<and> (retry_timers s = 0 \<and> \<not> retry_awaiting s \<and> Retry \<notin> set es \<longrightarrow>
          (isRetrying (run es (step Retry s)) \<longleftrightarrow>
             retry_timers (run es (step Retry s)) = 1 \<or> retry_awaiting (run es (step Retry s))))
    \<and> (Retry \<notin> set es0 \<longrightarrow> retry_timers s = 0 \<and> \<not> retry_awaiting s)
    \<and> (retry_timers s = 0 \<and> \<not> retry_awaiting s \<and> Retry \<notin> set es1 \<and> Timer \<notin> set es1 \<longrightarrow>
          isRetrying s2
          \<and> (startInFlightRef s2 \<or> videoElementRef s2 = None \<longrightarrow>
                \<not> isRetrying s3 \<and> requests s3 = requests s2)
          \<and> (\<not> startInFlightRef s2 \<and> videoElementRef s2 \<noteq> None \<longrightarrow>
                requests s3 = requests s2 @ [WithConstraints]
                \<and> startInFlightRef s3 \<and> isRetrying s3)
          \<and> (\<not> startInFlightRef s2 \<and> videoElementRef s2 \<noteq> None
                \<and> Retry \<notin> set es2 \<and> in_flight es2 s3 \<longrightarrow>
                (isRetrying (run es2 s3) \<longleftrightarrow> startInFlightRef (run es2 s3))))"
proof -
  have ok: "held_ok s"
    unfolding s_def by (rule held_ok_reachable)
  have 1: "isRetrying (step Retry s) \<and> streamRef (step Retry s) = None
      \<and> requests (step Retry s) = requests s
      \<and> start_pc (step Retry s) = start_pc s
      \<and> startInFlightRef (step Retry s) = startInFlightRef s
      \<and> retry_timers (step Retry s) = Suc (retry_timers s)"
    by (simp add: retry_sync_fields)
  have 2: "\<forall>sid. streamRef s = Some sid \<longrightarrow>
          streams (step Retry s) ! sid = map stop_track (streams s ! sid)
          \<and> list_all ended (streams (step Retry s) ! sid)"
  proof (intro allI impI)
    fix sid
    assume h: "streamRef s = Some sid"
    with ok have "sid < length (streams s)"
      by (simp add: held_ok_def)
    with h show "streams (step Retry s) ! sid = map stop_track (streams s ! sid)
        \<and> list_all ended (streams (step Retry s) ! sid)"
      by (simp add: retry_sync_fields list_all_stopped)
  qed
  have 3: "\<forall>j. videoElementRef s = Some j \<longrightarrow> srcObject (surfaces (step Retry s) j) = None"
    by (simp add: retry_sync_fields)
  have 4: "\<not> startInFlightRef s \<and> videoElementRef s \<noteq> None \<longrightarrow>
          requests (step Timer (step Retry s)) = requests s @ [WithConstraints]
          \<and> start_pc (step Timer (step Retry s)) = Await1
          \<and> isRetrying (step Timer (step Retry s))
          \<and> retry_awaiting (step Timer (step Retry s))"
    by (auto simp add: retry_sync_fields retry_resume_def start_sync_def requestStream_def)
  have 5: "startInFlightRef s \<or> videoElementRef s = None \<longrightarrow>
          requests (step Timer (step Retry s)) = requests s
          \<and> \<not> isRetrying (step Timer (step Retry s))"
    by (auto simp add: retry_sync_fields retry_resume_def start_sync_def requestStream_def)
  have 6: "retry_awaiting s' \<and> start_pc s' \<in> {Await1, Await2, Await3} \<longrightarrow>
          \<not> isRetrying (step (GumOk kinds) s')
          \<and> (ctype (categorizeError e) \<noteq> overconstrained
               \<and> ctype (categorizeError e) \<noteq> device_not_found \<longrightarrow>
             \<not> isRetrying (step (GumErr e) s'))"
    by (auto simp add: settle_def Let_def)
  have 7: "retry_awaiting s' \<and> startInFlightRef s' \<and> \<not> startInFlightRef (step e' s') \<longrightarrow>
          \<not> isRetrying (step e' s')"
    using settled_clears by blast
  have 8: "retry_timers s = 0 \<and> \<not> retry_awaiting s \<and> Retry \<notin> set es \<longrightarrow>
          (isRetrying (run es (step Retry s)) \<longleftrightarrow>
             retry_timers (run es (step Retry s)) = 1 \<or> retry_awaiting (run es (step Retry s)))"
  proof
    assume h: "retry_timers s = 0 \<and> \<not> retry_awaiting s \<and> Retry \<notin> set es"
    then have t: "retry_timers s = 0" and w: "\<not> retry_awaiting s" and r: "Retry \<notin> set es"
      by simp_all
    from t w have "single_retry (step Retry s)"
      by (rule single_retry_Retry)
    then have "single_retry (run es (step Retry s))"
      using r by (rule single_retry_run)
    then show "isRetrying (run es (step Retry s)) \<longleftrightarrow>
        retry_timers (run es (step Retry s)) = 1 \<or> retry_awaiting (run es (step Retry s))"
      by (auto simp: single_retry_def)
  qed
  have 9: "Retry \<notin> set es0 \<longrightarrow> retry_timers s = 0 \<and> \<not> retry_awaiting s"
  proof
    assume "Retry \<notin> set es0"
    moreover have "retry_timers (init a) = 0" and "\<not> retry_awaiting (init a)"
      by (simp_all add: init_def)
    ultimately show "retry_timers s = 0 \<and> \<not> retry_awaiting s"
      unfolding s_def using idle_run by blast
  qed
  have 10: "retry_timers s = 0 \<and> \<not> retry_awaiting s \<and> Retry \<notin> set es1 \<and> Timer \<notin> set es1 \<longrightarrow>
          isRetrying s2
          \<and> (startInFlightRef s2 \<or> videoElementRef s2 = None \<longrightarrow>
                \<not> isRetrying s3 \<and> requests s3 = requests s2)
          \<and> (\<not> startInFlightRef s2 \<and> videoElementRef s2 \<noteq> None \<longrightarrow>
                requests s3 = requests s2 @ [WithConstraints]
                \<and> startInFlightRef s3 \<and> isRetrying s3)
          \<and> (\<not> startInFlightRef s2 \<and> videoElementRef s2 \<noteq> None
                \<and> Retry \<notin> set es2 \<and> in_flight es2 s3 \<longrightarrow>
                (isRetrying (run es2 s3) \<longleftrightarrow> startInFlightRef (run es2 s3)))"
  proof (intro impI)
    assume h: "retry_timers s = 0 \<and> \<not> retry_awaiting s \<and> Retry \<notin> set es1 \<and> Timer \<notin> set es1"
    then have t: "retry_timers s = 0" and w: "\<not> retry_awaiting s"
      and r: "Retry \<notin> set es1" and m: "Timer \<notin> set es1"
      by simp_all
    have s2: "s2 = run es1 (step Retry s)" and s3: "s3 = step Timer s2"
      by (simp_all add: s_def s2_def s3_def)
    from t w have sr1: "single_retry (step Retry s)"
      by (rule single_retry_Retry)
    from t have t1: "retry_timers (step Retry s) = Suc 0"
      by (simp add: retry_sync_fields)
    from sr1 t1 r m
    have d: "single_retry s2 \<and> retry_timers s2 = Suc 0 \<and> \<not> retry_awaiting s2 \<and> isRetrying s2"
      unfolding s2 by (rule delay_run)
    then have sr2: "single_retry s2" and t2: "retry_timers s2 = Suc 0" and i2: "isRetrying s2"
      by simp_all
    have g: "startInFlightRef s2 \<or> videoElementRef s2 = None \<longrightarrow>
        \<not> isRetrying s3 \<and> requests s3 = requests s2"
      unfolding s3 using timer_guarded [OF sr2 t2] by blast
    have l: "\<not> startInFlightRef s2 \<and> videoElementRef s2 \<noteq> None \<longrightarrow>
        single_retry s3 \<and> retry_awaiting s3 \<and> requests s3 = requests s2 @ [WithConstraints]"
      unfolding s3 using timer_launched [OF sr2 t2] by blast
    have l1: "\<not> startInFlightRef s2 \<and> videoElementRef s2 \<noteq> None \<longrightarrow>
        requests s3 = requests s2 @ [WithConstraints] \<and> startInFlightRef s3 \<and> isRetrying s3"
      using l by (auto simp: single_retry_def)
    have l2: "\<not> startInFlightRef s2 \<and> videoElementRef s2 \<noteq> None
        \<and> Retry \<notin> set es2 \<and> in_flight es2 s3 \<longrightarrow>
        (isRetrying (run es2 s3) \<longleftrightarrow> startInFlightRef (run es2 s3))"
    proof
      assume a: "\<not> startInFlightRef s2 \<and> videoElementRef s2 \<noteq> None
          \<and> Retry \<notin> set es2 \<and> in_flight es2 s3"
      with l have "single_retry s3" and "retry_awaiting s3"
        and "Retry \<notin> set es2" and "in_flight es2 s3"
        by simp_all
      then show "isRetrying (run es2 s3) \<longleftrightarrow> startInFlightRef (run es2 s3)"
        using awaited_run by blast
    qed
    from i2 g l1 l2
    show "isRetrying s2
        \<and> (startInFlightRef s2 \<or> videoElementRef s2 = None \<longrightarrow>
              \<not> isRetrying s3 \<and> requests s3 = requests s2)
        \<and> (\<not> startInFlightRef s2 \<and> videoElementRef s2 \<noteq> None \<longrightarrow>
              requests s3 = requests s2 @ [WithConstraints]
              \<and> startInFlightRef s3 \<and> isRetrying s3)
        \<and> (\<not> startInFlightRef s2 \<and> videoElementRef s2 \<noteq> None
              \<and> Retry \<notin> set es2 \<and> in_flight es2 s3 \<longrightarrow>
              (isRetrying (run es2 s3) \<longleftrightarrow> startInFlightRef (run es2 s3)))"
      by blast
  qed
  from 1 2 3 4 5 6 7 8 9 10 show ?thesis by blast
qed

theorem retry_stop_delay_start_witness:
  "streamRef stream_lost = Some 0 \<and> errorType stream_lost = Some stream_ended
   \<and> isRetrying (step Retry stream_lost)
   \<and> streamRef (step Retry stream_lost) = None
   \<and> list_all ended (streams (step Retry stream_lost) ! 0)
   \<and> srcObject (surfaces (step Retry stream_lost) 0) = None
   \<and> requests (step Retry stream_lost) = [WithConstraints]
   \<and> isRetrying (run [Stop, Start] (step Retry stream_lost))
   \<and> \<not> isRetrying (step Timer (run [Stop, Start] (step Retry stream_lost)))
   \<and> isRetrying (run [Stop] (step Retry stream_lost))
   \<and> requests (step Timer (run [Stop] (step Retry stream_lost)))
       = [WithConstraints, WithConstraints]
   \<and> isRetrying (run [Start, GumErr OverconstrainedError]
        (step Timer (run [Stop] (step Retry stream_lost))))
   \<and> \<not> isRetrying (run [GumOk [Video]]
        (step Timer (run [Stop] (step Retry stream_lost))))
   \<and> \<not> isRetrying (run [GumErr NotAllowedError]
        (step Timer (run [Stop] (step Retry stream_lost))))
   \<and> \<not> isRetrying (run [GumErr OverconstrainedError, GumErr OverconstrainedError]
        (step Timer (run [Stop] (step Retry stream_lost))))
   \<and> \<not> isRetrying (run [GumErr NotFoundError, GumErr NotFoundError, EnumOk []]
        (step Timer (run [Stop] (step Retry stream_lost))))
   \<and> \<not> isRetrying (run [GumErr NotFoundError, GumErr NotFoundError, EnumErr AbortError]
        (step Timer (run [Stop] (step Retry stream_lost))))
   \<and> \<not> isRetrying (run [GumErr NotFoundError, GumErr NotFoundError, EnumOk [camera],
          GumErr NotFoundError]
        (step Timer (run [Stop] (step Retry stream_lost))))"
proof -
  have a: "streamRef stream_lost = Some 0 \<and> errorType stream_lost = Some stream_ended
      \<and> videoElementRef stream_lost = Some 0
      \<and> requests stream_lost = [WithConstraints]"
    unfolding stream_lost_def by code_simp
  have n: "Retry \<notin> set [Bind (Some 0), Start, GumOk [Video, Audio], TrackEnded 0 0]
      \<and> Retry \<notin> set [Stop, Start] \<and> Timer \<notin> set [Stop, Start]
      \<and> Retry \<notin> set [Stop] \<and> Timer \<notin> set [Stop]
      \<and> Retry \<notin> set [Start, GumErr OverconstrainedError]
      \<and> Retry \<notin> set [GumOk [Video]]
      \<and> Retry \<notin> set [GumErr NotAllowedError]
      \<and> Retry \<notin> set [GumErr OverconstrainedError, GumErr OverconstrainedError]
      \<and> Retry \<notin> set [GumErr NotFoundError, GumErr NotFoundError, EnumOk []]
      \<and> Retry \<notin> set [GumErr NotFoundError, GumErr NotFoundError, EnumErr AbortError]
      \<and> Retry \<notin> set [GumErr NotFoundError, GumErr NotFoundError, EnumOk [camera],
            GumErr NotFoundError]"
    by simp
  have g: "startInFlightRef (run [Stop, Start] (step Retry stream_lost))"
    unfolding stream_lost_def by code_simp
  have b: "\<not> startInFlightRef (run [Stop] (step Retry stream_lost))
      \<and> videoElementRef (run [Stop] (step Retry stream_lost)) = Some 0
      \<and> requests (run [Stop] (step Retry stream_lost)) = [WithConstraints]"
    unfolding stream_lost_def by code_simp
  have f: "in_flight [Start, GumErr OverconstrainedError]
        (step Timer (run [Stop] (step Retry stream_lost)))
      \<and> in_flight [GumOk [Video]] (step Timer (run [Stop] (step Retry stream_lost)))
      \<and> in_flight [GumErr NotAllowedError] (step Timer (run [Stop] (step Retry stream_lost)))
      \<and> in_flight [GumErr OverconstrainedError, GumErr OverconstrainedError]
        (step Timer (run [Stop] (step Retry stream_lost)))
      \<and> in_flight [GumErr NotFoundError, GumErr NotFoundError, EnumOk []]
        (step Timer (run [Stop] (step Retry stream_lost)))
      \<and> in_flight [GumErr NotFoundError, GumErr NotFoundError, EnumErr AbortError]
        (step Timer (run [Stop] (step Retry stream_lost)))
      \<and> in_flight [GumErr NotFoundError, GumErr NotFoundError, EnumOk [camera],
          GumErr NotFoundError] (step Timer (run [Stop] (step Retry stream_lost)))"
    unfolding stream_lost_def OverconstrainedError_def NotAllowedError_def NotFoundError_def
      AbortError_def camera_def
    by code_simp
  have r: "startInFlightRef (run [Start, GumErr OverconstrainedError]
        (step Timer (run [Stop] (step Retry stream_lost))))
      \<and> \<not> startInFlightRef (run [GumOk [Video]]
        (step Timer (run [Stop] (step Retry stream_lost))))
      \<and> \<not> startInFlightRef (run [GumErr NotAllowedError]
        (step Timer (run [Stop] (step Retry stream_lost))))
      \<and> \<not> startInFlightRef (run [GumErr OverconstrainedError, GumErr OverconstrainedError]
        (step Timer (run [Stop] (step Retry stream_lost))))
      \<and> \<not> startInFlightRef (run [GumErr NotFoundError, GumErr NotFoundError, EnumOk []]
        (step Timer (run [Stop] (step Retry stream_lost))))
      \<and> \<not> startInFlightRef (run [GumErr NotFoundError, GumErr NotFoundError,
          EnumErr AbortError] (step Timer (run [Stop] (step Retry stream_lost))))
      \<and> \<not> startInFlightRef (run [GumErr NotFoundError, GumErr NotFoundError, EnumOk [camera],
          GumErr NotFoundError] (step Timer (run [Stop] (step Retry stream_lost))))"
    unfolding stream_lost_def OverconstrainedError_def NotAllowedError_def NotFoundError_def
      AbortError_def camera_def
    by code_simp
  note t = retry_stop_delay_start
    [where ?es0.0 = "[Bind (Some 0), Start, GumOk [Video, Audio], TrackEnded 0 0]"
       and a = False, folded stream_lost_def]
  show ?thesis
    using a n g b f r
      t [where ?es1.0 = "[Stop, Start]"]
      t [where ?es1.0 = "[Stop]" and ?es2.0 = "[Start, GumErr OverconstrainedError]"]
      t [where ?es1.0 = "[Stop]" and ?es2.0 = "[GumOk [Video]]"]
      t [where ?es1.0 = "[Stop]" and ?es2.0 = "[GumErr NotAllowedError]"]
      t [where ?es1.0 = "[Stop]"
           and ?es2.0 = "[GumErr OverconstrainedError, GumErr OverconstrainedError]"]
      t [where ?es1.0 = "[Stop]"
           and ?es2.0 = "[GumErr NotFoundError, GumErr NotFoundError, EnumOk []]"]
      t [where ?es1.0 = "[Stop]"
           and ?es2.0 = "[GumErr NotFoundError, GumErr NotFoundError, EnumErr AbortError]"]
      t [where ?es1.0 = "[Stop]"
           and ?es2.0 = "[GumErr NotFoundError, GumErr NotFoundError, EnumOk [camera],
                GumErr NotFoundError]"]
    by (simp del: step.simps run.simps in_flight.simps set_simps)
qed

text \<open>
  C5 as stated fails when two \<^verbatim>\<open>retry()\<close> calls overlap: the second call finds the
  first one's \<^verbatim>\<open>start()\<close> in flight, its own \<^verbatim>\<open>start()\<close> returns at the guard and it
  clears \<^verbatim>\<open>isRetrying\<close>, while the first call is still waiting for its \<^verbatim>\<open>start()\<close>.
\<close>

theorem retry_overlap_counterexample:
  "\<not> isRetrying retry_overlap \<and> retry_awaiting retry_overlap
   \<and> startInFlightRef retry_overlap \<and> start_pc retry_overlap = Await1"
  unfolding retry_overlap_def by code_simp

end
